theory Spec2Isabelle
  imports Main
begin

section \<open>Tech-stack voting and selection: the store\<close>

text \<open>
  The service \<open>TechsService\<close> works on a relational store through a data-access client.
  Every function of the service is modelled as a function from the store (and the
  request) to a result and the store afterwards. An exception is the left summand of the
  result; the store that is returned with it is the store the exception leaves behind,
  so a write that happened before a later statement threw stays visible.
\<close>

subsection \<open>Entities\<close>

record User =
  user_id :: string
  user_firstName :: string
  user_lastName :: string
  user_avatar :: string

record VoyageTeam =
  team_id :: int

record VoyageTeamMember =
  member_id :: int
  member_userId :: string
  member_voyageTeamId :: int

record TechStackCategory =
  category_id :: int
  category_name :: string
  category_description :: string

record TeamTechStackItem =
  item_id :: int
  item_name :: string
  item_categoryId :: int
  item_voyageTeamId :: int
  item_isSelected :: bool

record TeamTechStackItemVote =
  vote_id :: int
  vote_teamTechId :: int
  vote_teamMemberId :: int
  vote_createdAt :: int
  vote_updatedAt :: int

text \<open>
  The tables, in insertion order, and the two sequences that number new items and votes.
\<close>

record store =
  user :: "User list"
  voyageTeam :: "VoyageTeam list"
  voyageTeamMember :: "VoyageTeamMember list"
  techStackCategory :: "TechStackCategory list"
  teamTechStackItem :: "TeamTechStackItem list"
  teamTechStackItemVote :: "TeamTechStackItemVote list"
  itemSeq :: int
  voteSeq :: int

subsection \<open>Exceptions\<close>

text \<open>
  The three HTTP exceptions carry their message. A storage error carries its code and the
  cause the handler of \<open>removeVote\<close> reads (\<open>e.meta.cause\<close>). \<open>TypeError\<close> is what
  reading a property of \<open>null\<close> throws.
\<close>

datatype error =
    BadRequestException string
  | ConflictException string
  | NotFoundException string
  | PrismaClientKnownRequestError string string
  | TypeError

fun code :: "error \<Rightarrow> string option" where
  "code (PrismaClientKnownRequestError c cause) = Some c"
| "code _ = None"

fun is_BadRequest :: "error + 'a \<Rightarrow> bool" where
  "is_BadRequest (Inl (BadRequestException m)) = True"
| "is_BadRequest _ = False"


fun is_NotFound :: "error + 'a \<Rightarrow> bool" where
  "is_NotFound (Inl (NotFoundException m)) = True"
| "is_NotFound _ = False"

subsection \<open>Template literals\<close>

text \<open>The decimal form of an integer, as a template literal \<open>${n}\<close> prints it.\<close>

fun digits :: "nat \<Rightarrow> string" where
  "digits n =
     (if n < 10 then [''0123456789'' ! n]
      else digits (n div 10) @ [''0123456789'' ! (n mod 10)])"

declare digits.simps [simp del]

definition numberToString :: "int \<Rightarrow> string" where
  "numberToString i = (if i < 0 then CHR ''-'' # digits (nat (- i)) else digits (nat i))"

subsection \<open>The data-access client\<close>

text \<open>
  Modelled from the spec: the storage client is a library outside the repository, and the
  schema of the four entities is not among the source files. Every definition of this
  subsection (the lookups, \<open>create\<close>, \<open>delete\<close>, the update of a flag, and the
  transaction) follows the storage contract of the spec (section 6: create, read, update
  and delete with a unique-constraint violation that is told apart from "not found",
  multi-statement atomic transactions, lookups by a composite key) and its two
  uniqueness constraints (section 3: an item's name per team and category, a vote per
  item and member). An item belongs to exactly one team and one category (section 3), so
  the store refuses a new item whose category or team it does not hold. The codes
  \<open>P2002\<close> and \<open>P2025\<close> are the ones the handlers of the service test for; the refusal of
  a missing reference has the code \<open>P2003\<close>, which no handler tests for. New rows are
  numbered by a sequence, so an identifier is never handed out twice. Deleting an item
  removes the item only; the service deletes an item when it has read that the item has
  no vote. No other storage error is modelled. The \<open>throw e\<close> of the handlers, which
  passes any other error on, is the last branch of \<open>catch_P2002\<close> and \<open>catch_P2025\<close>
  below.
\<close>

definition P2002 :: error where
  "P2002 = PrismaClientKnownRequestError ''P2002'' ''Unique constraint failed''"

definition P2003 :: error where
  "P2003 = PrismaClientKnownRequestError ''P2003'' ''Foreign key constraint failed''"

definition P2025 :: "string \<Rightarrow> error" where
  "P2025 cause = PrismaClientKnownRequestError ''P2025'' cause"

definition voyageTeam_findUnique :: "store \<Rightarrow> int \<Rightarrow> VoyageTeam option" where
  "voyageTeam_findUnique s tid = find (\<lambda>t. team_id t = tid) (voyageTeam s)"

definition voyageTeamMember_findUnique :: "store \<Rightarrow> string \<Rightarrow> int \<Rightarrow> VoyageTeamMember option" where
  "voyageTeamMember_findUnique s uid tid =
     find (\<lambda>m. member_userId m = uid \<and> member_voyageTeamId m = tid) (voyageTeamMember s)"

definition teamTechStackItem_findUnique :: "store \<Rightarrow> int \<Rightarrow> TeamTechStackItem option" where
  "teamTechStackItem_findUnique s iid = find (\<lambda>i. item_id i = iid) (teamTechStackItem s)"

definition votesOf :: "store \<Rightarrow> int \<Rightarrow> TeamTechStackItemVote list" where
  "votesOf s iid = filter (\<lambda>v. vote_teamTechId v = iid) (teamTechStackItemVote s)"

text \<open>\<open>findUnique\<close> on an item with \<open>select: { teamTechStackItemVotes: true }\<close>.\<close>

definition teamTechStackItem_findUnique_votes ::
  "store \<Rightarrow> int \<Rightarrow> TeamTechStackItemVote list option" where
  "teamTechStackItem_findUnique_votes s iid =
     (case teamTechStackItem_findUnique s iid of
        None \<Rightarrow> None
      | Some i \<Rightarrow> Some (votesOf s iid))"

definition teamTechStackItem_create ::
  "store \<Rightarrow> string \<Rightarrow> int \<Rightarrow> int \<Rightarrow> (error + TeamTechStackItem) \<times> store" where
  "teamTechStackItem_create s name categoryId voyageTeamId =
     (if \<exists>i \<in> set (teamTechStackItem s).
           item_name i = name \<and> item_voyageTeamId i = voyageTeamId \<and> item_categoryId i = categoryId
      then (Inl P2002, s)
      else if \<not> ((\<exists>c \<in> set (techStackCategory s). category_id c = categoryId)
                  \<and> (\<exists>t \<in> set (voyageTeam s). team_id t = voyageTeamId))
      then (Inl P2003, s)
      else
        (let i = \<lparr>item_id = itemSeq s, item_name = name, item_categoryId = categoryId,
                   item_voyageTeamId = voyageTeamId, item_isSelected = False\<rparr>
         in (Inr i, s\<lparr>teamTechStackItem := teamTechStackItem s @ [i], itemSeq := itemSeq s + 1\<rparr>)))"

definition teamTechStackItemVote_create ::
  "store \<Rightarrow> int \<Rightarrow> int \<Rightarrow> int \<Rightarrow> (error + TeamTechStackItemVote) \<times> store" where
  "teamTechStackItemVote_create s now teamTechId teamMemberId =
     (if \<exists>v \<in> set (teamTechStackItemVote s).
           vote_teamTechId v = teamTechId \<and> vote_teamMemberId v = teamMemberId
      then (Inl P2002, s)
      else
        (let v = \<lparr>vote_id = voteSeq s, vote_teamTechId = teamTechId,
                   vote_teamMemberId = teamMemberId, vote_createdAt = now, vote_updatedAt = now\<rparr>
         in (Inr v, s\<lparr>teamTechStackItemVote := teamTechStackItemVote s @ [v],
                        voteSeq := voteSeq s + 1\<rparr>)))"

definition teamTechStackItemVote_delete ::
  "store \<Rightarrow> int \<Rightarrow> int \<Rightarrow> (error + unit) \<times> store" where
  "teamTechStackItemVote_delete s teamTechId teamMemberId =
     (if \<exists>v \<in> set (teamTechStackItemVote s).
           vote_teamTechId v = teamTechId \<and> vote_teamMemberId v = teamMemberId
      then (Inr (),
            s\<lparr>teamTechStackItemVote :=
                filter (\<lambda>v. \<not> (vote_teamTechId v = teamTechId \<and> vote_teamMemberId v = teamMemberId))
                  (teamTechStackItemVote s)\<rparr>)
      else (Inl (P2025 ''Record to delete does not exist.''), s))"

definition teamTechStackItem_delete :: "store \<Rightarrow> int \<Rightarrow> (error + unit) \<times> store" where
  "teamTechStackItem_delete s iid =
     (if \<exists>i \<in> set (teamTechStackItem s). item_id i = iid
      then (Inr (), s\<lparr>teamTechStackItem := filter (\<lambda>i. item_id i \<noteq> iid) (teamTechStackItem s)\<rparr>)
      else (Inl (P2025 ''Record to delete does not exist.''), s))"

definition teamTechStackItem_update_op ::
  "int \<Rightarrow> bool \<Rightarrow> store \<Rightarrow> (error + TeamTechStackItem) \<times> store" where
  "teamTechStackItem_update_op iid sel s =
     (case teamTechStackItem_findUnique s iid of
        None \<Rightarrow> (Inl (P2025 ''Record to update not found.''), s)
      | Some i \<Rightarrow>
          (Inr (i\<lparr>item_isSelected := sel\<rparr>),
           s\<lparr>teamTechStackItem :=
               map (\<lambda>j. if item_id j = iid then j\<lparr>item_isSelected := sel\<rparr> else j)
                 (teamTechStackItem s)\<rparr>))"

text \<open>
  A batch of writes runs in order inside one transaction. \<open>run_batch\<close> threads the store
  through the writes and stops at the first error; \<open>transaction\<close> commits the store the
  batch reached, or gives back the store it started from.
\<close>

fun run_batch ::
  "(store \<Rightarrow> (error + 'a) \<times> store) list \<Rightarrow> store \<Rightarrow> (error + 'a list) \<times> store" where
  "run_batch [] s = (Inr [], s)"
| "run_batch (w # ws) s =
     (case w s of
        (Inl e, s1) \<Rightarrow> (Inl e, s1)
      | (Inr r, s1) \<Rightarrow>
          (case run_batch ws s1 of
             (Inl e, s2) \<Rightarrow> (Inl e, s2)
           | (Inr rs, s2) \<Rightarrow> (Inr (r # rs), s2)))"

definition transaction ::
  "(store \<Rightarrow> (error + 'a) \<times> store) list \<Rightarrow> store \<Rightarrow> (error + 'a list) \<times> store" where
  "transaction ws s =
     (case run_batch ws s of
        (Inl e, s1) \<Rightarrow> (Inl e, s)
      | (Inr rs, s1) \<Rightarrow> (Inr rs, s1))"

section \<open>The service\<close>

text \<open>
  The request carries the authenticated user; the service reads \<open>req.user.userId\<close> only.
\<close>

record Request =
  req_userId :: string

definition MAX_SELECTION_COUNT :: nat where
  "MAX_SELECTION_COUNT = 3"

subsection \<open>Team validation and identity resolution\<close>

definition validateTeamId :: "store \<Rightarrow> int \<Rightarrow> error + unit" where
  "validateTeamId s teamId =
     (case voyageTeam_findUnique s teamId of
        None \<Rightarrow> Inl (NotFoundException (''Team (id: '' @ numberToString teamId @ '') doesn't exist.''))
      | Some team \<Rightarrow> Inr ())"

definition findVoyageMemberId :: "store \<Rightarrow> Request \<Rightarrow> int \<Rightarrow> int option" where
  "findVoyageMemberId s req teamId =
     (let uuid = req_userId req
      in case voyageTeamMember_findUnique s uuid teamId of
           None \<Rightarrow> None
         | Some voyageMember \<Rightarrow> Some (member_id voyageMember))"

text \<open>
  The guard \<open>if (!voyageMemberId)\<close> of the four writing operations: it fires on \<open>null\<close>
  and on the number 0.
\<close>

fun falsy_id :: "int option \<Rightarrow> bool" where
  "falsy_id None = True"
| "falsy_id (Some n) = (n = 0)"

subsection \<open>The catalog\<close>

record CatalogItem =
  ci_id :: int
  ci_name :: string
  ci_teamTechStackItemVotes :: "User option option list"

record CatalogCategory =
  cc_id :: int
  cc_name :: string
  cc_description :: string
  cc_teamTechStackItems :: "CatalogItem list"

text \<open>
  The nested \<open>select\<close> of \<open>techStackCategory.findMany\<close>: every category, the items of the
  team in it, and for every vote of an item the voter (\<open>votedBy\<close>, a team member) and
  the member's user (\<open>member\<close>).
\<close>

definition votedBy :: "store \<Rightarrow> TeamTechStackItemVote \<Rightarrow> User option option" where
  "votedBy s v =
     map_option (\<lambda>m. find (\<lambda>u. user_id u = member_userId m) (user s))
       (find (\<lambda>m. member_id m = vote_teamMemberId v) (voyageTeamMember s))"

definition techStackCategory_findMany :: "store \<Rightarrow> int \<Rightarrow> CatalogCategory list" where
  "techStackCategory_findMany s teamId =
     map (\<lambda>c. \<lparr>cc_id = category_id c, cc_name = category_name c,
                cc_description = category_description c,
                cc_teamTechStackItems =
                  map (\<lambda>i. \<lparr>ci_id = item_id i, ci_name = item_name i,
                             ci_teamTechStackItemVotes = map (votedBy s) (votesOf s (item_id i))\<rparr>)
                    (filter (\<lambda>i. item_categoryId i = category_id c \<and> item_voyageTeamId i = teamId)
                       (teamTechStackItem s))\<rparr>)
       (techStackCategory s)"

text \<open>
  \<open>getAllTechItemsByTeamId\<close> calls \<open>this.validateTeamId(teamId)\<close> as a statement, without
  \<open>await\<close>: the promise it returns is dropped, and a rejection of that promise does not
  reach the caller. The function goes on to the query and returns its result.
\<close>

definition getAllTechItemsByTeamId :: "store \<Rightarrow> int \<Rightarrow> error + CatalogCategory list" where
  "getAllTechItemsByTeamId s teamId =
     (let dropped = validateTeamId s teamId
      in Inr (techStackCategory_findMany s teamId))"

subsection \<open>Selections\<close>

record TechSelection =
  techId :: int
  isSelected :: bool

record TechCategoryDto =
  categoryId :: int
  techs :: "TechSelection list"

record UpdateTechSelectionsDto =
  categories :: "TechCategoryDto list"

definition selectCount :: "TechCategoryDto \<Rightarrow> nat" where
  "selectCount category =
     foldl (\<lambda>acc tech. acc + (if isSelected tech then 1 else 0)) 0 (techs category)"

text \<open>The first \<open>forEach\<close>: the first category over the cap throws.\<close>

fun checkSelectionCounts :: "TechCategoryDto list \<Rightarrow> error + unit" where
  "checkSelectionCounts [] = Inr ()"
| "checkSelectionCounts (category # rest) =
     (if selectCount category > MAX_SELECTION_COUNT
      then Inl (BadRequestException
             (''Only '' @ numberToString (int MAX_SELECTION_COUNT) @ '' selections allowed per category''))
      else checkSelectionCounts rest)"

definition techsArray :: "TechCategoryDto list \<Rightarrow> TechSelection list" where
  "techsArray cs = concat (map techs cs)"

definition updateTechStackSelections ::
  "store \<Rightarrow> Request \<Rightarrow> int \<Rightarrow> UpdateTechSelectionsDto \<Rightarrow> (error + TeamTechStackItem list) \<times> store" where
  "updateTechStackSelections s req teamId updateTechSelectionsDto =
     (case checkSelectionCounts (categories updateTechSelectionsDto) of
        Inl e \<Rightarrow> (Inl e, s)
      | Inr u \<Rightarrow>
          (if falsy_id (findVoyageMemberId s req teamId)
           then (Inl (BadRequestException ''Invalid User or Team Id''), s)
           else transaction
                  (map (\<lambda>tech. teamTechStackItem_update_op (techId tech) (isSelected tech))
                     (techsArray (categories updateTechSelectionsDto)))
                  s))"

subsection \<open>Proposals and votes\<close>

record CreateTeamTechDto =
  techName :: string
  techCategoryId :: int

record VoteResult =
  teamTechStackItemVoteId :: int
  teamTechId :: int
  teamMemberId :: int
  createdAt :: int
  updatedAt :: int

record Outcome =
  message :: string
  statusCode :: nat

text \<open>
  The handlers of the three \<open>try\<close> blocks: a storage error with the given code becomes
  the HTTP exception, anything else is thrown again.
\<close>

definition catch_P2002 :: "string \<Rightarrow> error \<Rightarrow> error" where
  "catch_P2002 msg e = (if code e = Some ''P2002'' then ConflictException msg else e)"

fun catch_P2025 :: "error \<Rightarrow> error" where
  "catch_P2025 (PrismaClientKnownRequestError c cause) =
     (if c = ''P2025'' then NotFoundException cause else PrismaClientKnownRequestError c cause)"
| "catch_P2025 e = e"

text \<open>\<open>now\<close> is the time the store stamps on a vote it creates.\<close>

definition addNewTeamTech ::
  "store \<Rightarrow> int \<Rightarrow> Request \<Rightarrow> int \<Rightarrow> CreateTeamTechDto \<Rightarrow> (error + VoteResult) \<times> store" where
  "addNewTeamTech s now req teamId createTechVoteDto =
     (case findVoyageMemberId s req teamId of
        None \<Rightarrow> (Inl (BadRequestException ''Invalid User or Team Id''), s)
      | Some voyageMemberId \<Rightarrow>
          if voyageMemberId = 0 then (Inl (BadRequestException ''Invalid User or Team Id''), s)
          else
            (let handler = catch_P2002
                   (techName createTechVoteDto @ '' already exists in the available team tech stack.'')
             in case teamTechStackItem_create s (techName createTechVoteDto)
                       (techCategoryId createTechVoteDto) teamId of
                  (Inl e, s1) \<Rightarrow> (Inl (handler e), s1)
                | (Inr newTeamTechItem, s1) \<Rightarrow>
                    (case teamTechStackItemVote_create s1 now (item_id newTeamTechItem) voyageMemberId of
                       (Inl e, s2) \<Rightarrow> (Inl (handler e), s2)
                     | (Inr TeamTechItemFirstVote, s2) \<Rightarrow>
                         (Inr \<lparr>teamTechStackItemVoteId = vote_id TeamTechItemFirstVote,
                               teamTechId = item_id newTeamTechItem,
                               teamMemberId = vote_teamMemberId TeamTechItemFirstVote,
                               createdAt = vote_createdAt TeamTechItemFirstVote,
                               updatedAt = vote_updatedAt TeamTechItemFirstVote\<rparr>, s2))))"

definition addExistingTechVote ::
  "store \<Rightarrow> int \<Rightarrow> Request \<Rightarrow> int \<Rightarrow> int \<Rightarrow> (error + VoteResult) \<times> store" where
  "addExistingTechVote s now req teamId tid =
     (case teamTechStackItem_findUnique s tid of
        None \<Rightarrow> (Inl (BadRequestException ''Team Tech Item not found''), s)
      | Some teamTechItem \<Rightarrow>
          (case findVoyageMemberId s req teamId of
             None \<Rightarrow> (Inl (BadRequestException ''Invalid User''), s)
           | Some voyageMemberId \<Rightarrow>
               if voyageMemberId = 0 then (Inl (BadRequestException ''Invalid User''), s)
               else
                 (case teamTechStackItemVote_create s now tid voyageMemberId of
                    (Inl e, s1) \<Rightarrow>
                      (Inl (catch_P2002 (''User has already voted for techId:'' @ numberToString tid) e), s1)
                  | (Inr teamMemberTechVote, s1) \<Rightarrow>
                      (Inr \<lparr>teamTechStackItemVoteId = vote_id teamMemberTechVote,
                            teamTechId = tid,
                            teamMemberId = vote_teamMemberId teamMemberTechVote,
                            createdAt = vote_createdAt teamMemberTechVote,
                            updatedAt = vote_updatedAt teamMemberTechVote\<rparr>, s1))))"

definition removeVote :: "store \<Rightarrow> Request \<Rightarrow> int \<Rightarrow> int \<Rightarrow> (error + Outcome) \<times> store" where
  "removeVote s req teamId tid =
     (case findVoyageMemberId s req teamId of
        None \<Rightarrow> (Inl (BadRequestException ''Invalid User''), s)
      | Some voyageMemberId \<Rightarrow>
          if voyageMemberId = 0 then (Inl (BadRequestException ''Invalid User''), s)
          else
            (case teamTechStackItemVote_delete s tid voyageMemberId of
               (Inl e, s1) \<Rightarrow> (Inl (catch_P2025 e), s1)
             | (Inr u, s1) \<Rightarrow>
                 (case teamTechStackItem_findUnique_votes s1 tid of
                    None \<Rightarrow> (Inl (catch_P2025 TypeError), s1)
                  | Some teamTechStackItemVotes \<Rightarrow>
                      if length teamTechStackItemVotes = 0
                      then (case teamTechStackItem_delete s1 tid of
                              (Inl e, s2) \<Rightarrow> (Inl (catch_P2025 e), s2)
                            | (Inr u, s2) \<Rightarrow>
                                (Inr \<lparr>message = ''The vote and tech stack item were deleted'',
                                      statusCode = 200\<rparr>, s2))
                      else (Inr \<lparr>message = ''This vote was deleted'', statusCode = 200\<rparr>, s1))))"

text \<open>
  \<open>removeVote\<close> cut at two of its \<open>await\<close>s. \<open>removeVote_deleteVote\<close> is the function
  up to the vote delete (lines 205 to 216); the re-read of the item with its votes (lines
  219 to 228) is \<open>teamTechStackItem_findUnique_votes\<close>; \<open>removeVote_finish\<close> is the rest
  (lines 230 to 247), given what the re-read returned. No transaction spans the three
  storage calls, and a request of another caller can be served while this one waits
  (spec, section 5: every operation suspends at the storage call boundary).
  \<open>removeVote_between other\<close> is \<open>removeVote\<close> with the writes \<open>other\<close> of another
  request served between the re-read and the rest.
\<close>

definition removeVote_deleteVote :: "store \<Rightarrow> Request \<Rightarrow> int \<Rightarrow> int \<Rightarrow> (error + unit) \<times> store" where
  "removeVote_deleteVote s req teamId tid =
     (case findVoyageMemberId s req teamId of
        None \<Rightarrow> (Inl (BadRequestException ''Invalid User''), s)
      | Some voyageMemberId \<Rightarrow>
          if voyageMemberId = 0 then (Inl (BadRequestException ''Invalid User''), s)
          else
            (case teamTechStackItemVote_delete s tid voyageMemberId of
               (Inl e, s1) \<Rightarrow> (Inl (catch_P2025 e), s1)
             | (Inr u, s1) \<Rightarrow> (Inr (), s1)))"

definition removeVote_finish ::
  "store \<Rightarrow> int \<Rightarrow> TeamTechStackItemVote list option \<Rightarrow> (error + Outcome) \<times> store" where
  "removeVote_finish s tid teamTechItem =
     (case teamTechItem of
        None \<Rightarrow> (Inl (catch_P2025 TypeError), s)
      | Some teamTechStackItemVotes \<Rightarrow>
          if length teamTechStackItemVotes = 0
          then (case teamTechStackItem_delete s tid of
                  (Inl e, s2) \<Rightarrow> (Inl (catch_P2025 e), s2)
                | (Inr u, s2) \<Rightarrow>
                    (Inr \<lparr>message = ''The vote and tech stack item were deleted'',
                          statusCode = 200\<rparr>, s2))
          else (Inr \<lparr>message = ''This vote was deleted'', statusCode = 200\<rparr>, s))"

definition removeVote_between ::
  "(store \<Rightarrow> store) \<Rightarrow> store \<Rightarrow> Request \<Rightarrow> int \<Rightarrow> int \<Rightarrow> (error + Outcome) \<times> store" where
  "removeVote_between other s req teamId tid =
     (case removeVote_deleteVote s req teamId tid of
        (Inl e, s1) \<Rightarrow> (Inl e, s1)
      | (Inr u, s1) \<Rightarrow>
          (let teamTechItem = teamTechStackItem_findUnique_votes s1 tid
           in removeVote_finish (other s1) tid teamTechItem))"

subsection \<open>Sequences of requests\<close>

text \<open>
  The four writing operations as requests, and the store a request leaves behind,
  whether it returned or threw.
\<close>

datatype call =
    UpdateSelections Request int UpdateTechSelectionsDto
  | ProposeTech int Request int CreateTeamTechDto
  | AddVote int Request int int
  | RemoveVote Request int int

fun step :: "store \<Rightarrow> call \<Rightarrow> store" where
  "step s (UpdateSelections req teamId dto) = snd (updateTechStackSelections s req teamId dto)"
| "step s (ProposeTech now req teamId dto) = snd (addNewTeamTech s now req teamId dto)"
| "step s (AddVote now req teamId tid) = snd (addExistingTechVote s now req teamId tid)"
| "step s (RemoveVote req teamId tid) = snd (removeVote s req teamId tid)"

definition run :: "store \<Rightarrow> call list \<Rightarrow> store" where
  "run s cs = foldl step s cs"

text \<open>A store before the first proposal: no item and no vote yet.\<close>

definition initial :: "store \<Rightarrow> bool" where
  "initial s = (teamTechStackItem s = [] \<and> teamTechStackItemVote s = [])"

text \<open>No item without a vote.\<close>

definition zero_vote_free :: "store \<Rightarrow> bool" where
  "zero_vote_free s = (\<forall>i \<in> set (teamTechStackItem s). votesOf s (item_id i) \<noteq> [])"

text \<open>
  What the operations keep true of the store besides: every vote is for an item of the
  store, the item sequence is ahead of every item, no two votes are for the same item
  by the same member, and no vote is by a member numbered 0 (the guard of the writing
  operations turns such a caller away).
\<close>

definition votePair :: "TeamTechStackItemVote \<Rightarrow> int \<times> int" where
  "votePair v = (vote_teamTechId v, vote_teamMemberId v)"

definition consistent :: "store \<Rightarrow> bool" where
  "consistent s =
     (vote_teamTechId ` set (teamTechStackItemVote s) \<subseteq> item_id ` set (teamTechStackItem s)
      \<and> (\<forall>i \<in> set (teamTechStackItem s). item_id i < itemSeq s)
      \<and> distinct (map votePair (teamTechStackItemVote s))
      \<and> (\<forall>v \<in> set (teamTechStackItemVote s). vote_teamMemberId v \<noteq> 0))"

section \<open>Form responses\<close>

text \<open>
  \<open>GlobalService.responseDtoToArray\<close> takes any object. A field of a response is a
  JavaScript value; the conditional spreads test its truthiness.
\<close>

datatype jsval = JUndefined | JNull | JBoolean bool | JNumber int | JString string

fun truthy :: "jsval \<Rightarrow> bool" where
  "truthy JUndefined = False"
| "truthy JNull = False"
| "truthy (JBoolean b) = b"
| "truthy (JNumber n) = (n \<noteq> 0)"
| "truthy (JString str) = (str \<noteq> [])"

record FormResponseDto =
  dto_questionId :: jsval
  dto_text :: jsval
  dto_numeric :: jsval
  dto_boolean :: jsval
  dto_optionChoiceId :: jsval

text \<open>
  A property of the object passed in holds an array of responses or something else. An
  object literal is the list of its keys and values, in the order they are written.
\<close>

datatype property = Responses "FormResponseDto list" | Value jsval

definition responseIndex :: "string list" where
  "responseIndex = [''response'', ''responses'']"

definition pushed :: "FormResponseDto \<Rightarrow> (string \<times> jsval) list" where
  "pushed v =
     [(''questionId'', dto_questionId v)]
     @ (if truthy (dto_text v) then [(''text'', dto_text v)] else [(''text'', JNull)])
     @ (if truthy (dto_numeric v) then [(''numeric'', dto_numeric v)] else [(''numeric'', JNull)])
     @ (if truthy (dto_boolean v) then [(''boolean'', dto_boolean v)] else [(''boolean'', JNull)])
     @ (if truthy (dto_optionChoiceId v) then [(''optionChoiceId'', dto_optionChoiceId v)]
        else [(''optionChoiceId'', JNull)])"

text \<open>
  The \<open>for ... in\<close> loop over the keys, with the array built so far. \<open>forEach\<close> on a
  value that is no array throws.
\<close>

fun responseDtoToArray_loop ::
  "(string \<times> property) list \<Rightarrow> (string \<times> jsval) list list \<Rightarrow> error + (string \<times> jsval) list list" where
  "responseDtoToArray_loop [] responsesArray = Inr responsesArray"
| "responseDtoToArray_loop ((index, p) # rest) responsesArray =
     (if index \<in> set responseIndex
      then (case p of
              Responses vs \<Rightarrow> responseDtoToArray_loop rest (responsesArray @ map pushed vs)
            | Value x \<Rightarrow> Inl TypeError)
      else responseDtoToArray_loop rest responsesArray)"

definition responseDtoToArray :: "(string \<times> property) list \<Rightarrow> error + (string \<times> jsval) list list" where
  "responseDtoToArray responses = responseDtoToArray_loop responses []"

text \<open>All responses of the object passed in, in the order of the loop.\<close>

fun responsesOf :: "(string \<times> property) list \<Rightarrow> FormResponseDto list" where
  "responsesOf [] = []"
| "responsesOf ((index, Responses vs) # rest) =
     (if index \<in> set responseIndex then vs @ responsesOf rest else responsesOf rest)"
| "responsesOf ((index, Value x) # rest) = responsesOf rest"

section \<open>Vocabulary of the properties\<close>

text \<open>
  Names for what the theorems talk about: the invariant, whether a name is taken,
  whether the category and the team of a proposal are in the store, and whether a member
  has voted for an item, the rows the store creates for a proposal and
  for a vote, and the store without a vote or without an item.
\<close>

definition inv :: "store \<Rightarrow> bool" where
  "inv s = (consistent s \<and> zero_vote_free s)"

definition nameTaken :: "store \<Rightarrow> int \<Rightarrow> CreateTeamTechDto \<Rightarrow> bool" where
  "nameTaken s teamId dto =
     (\<exists>i \<in> set (teamTechStackItem s).
        item_name i = techName dto \<and> item_voyageTeamId i = teamId
        \<and> item_categoryId i = techCategoryId dto)"

definition refsExist :: "store \<Rightarrow> int \<Rightarrow> CreateTeamTechDto \<Rightarrow> bool" where
  "refsExist s teamId dto =
     ((\<exists>c \<in> set (techStackCategory s). category_id c = techCategoryId dto)
      \<and> (\<exists>t \<in> set (voyageTeam s). team_id t = teamId))"

definition proposed :: "store \<Rightarrow> int \<Rightarrow> CreateTeamTechDto \<Rightarrow> TeamTechStackItem" where
  "proposed s teamId dto =
     \<lparr>item_id = itemSeq s, item_name = techName dto, item_categoryId = techCategoryId dto,
      item_voyageTeamId = teamId, item_isSelected = False\<rparr>"

definition cast :: "store \<Rightarrow> int \<Rightarrow> int \<Rightarrow> int \<Rightarrow> TeamTechStackItemVote" where
  "cast s now tid m =
     \<lparr>vote_id = voteSeq s, vote_teamTechId = tid, vote_teamMemberId = m,
      vote_createdAt = now, vote_updatedAt = now\<rparr>"

definition voted :: "store \<Rightarrow> int \<Rightarrow> int \<Rightarrow> bool" where
  "voted s tid m =
     (\<exists>v \<in> set (teamTechStackItemVote s). vote_teamTechId v = tid \<and> vote_teamMemberId v = m)"

definition withoutVote :: "store \<Rightarrow> int \<Rightarrow> int \<Rightarrow> store" where
  "withoutVote s tid m =
     s\<lparr>teamTechStackItemVote :=
         filter (\<lambda>v. \<not> (vote_teamTechId v = tid \<and> vote_teamMemberId v = m))
           (teamTechStackItemVote s)\<rparr>"

definition withoutItem :: "store \<Rightarrow> int \<Rightarrow> store" where
  "withoutItem s tid =
     s\<lparr>teamTechStackItem := filter (\<lambda>i. item_id i \<noteq> tid) (teamTechStackItem s)\<rparr>"

text \<open>
  For the selections: the value the batch asks for an item, which is the value of the last
  entry that lists it; an item after the batch; and the writes of the batch.
\<close>

fun requested :: "TechSelection list \<Rightarrow> int \<Rightarrow> bool option" where
  "requested [] x = None"
| "requested (t # ts) x =
     (case requested ts x of
        Some b \<Rightarrow> Some b
      | None \<Rightarrow> if techId t = x then Some (isSelected t) else None)"

definition selected_as :: "TechSelection list \<Rightarrow> TeamTechStackItem \<Rightarrow> TeamTechStackItem" where
  "selected_as ts i =
     (case requested ts (item_id i) of None \<Rightarrow> i | Some b \<Rightarrow> i\<lparr>item_isSelected := b\<rparr>)"

definition selection_writes :: "TechSelection list \<Rightarrow> (store \<Rightarrow> (error + TeamTechStackItem) \<times> store) list" where
  "selection_writes ts = map (\<lambda>tech. teamTechStackItem_update_op (techId tech) (isSelected tech)) ts"

section \<open>Concrete stores and requests\<close>

definition store0 :: store where
  "store0 =
     \<lparr>user = [\<lparr>user_id = ''u1'', user_firstName = ''Ada'', user_lastName = ''L'', user_avatar = ''a.png''\<rparr>,
              \<lparr>user_id = ''u2'', user_firstName = ''Bob'', user_lastName = ''M'', user_avatar = ''b.png''\<rparr>],
      voyageTeam = [\<lparr>team_id = 1\<rparr>],
      voyageTeamMember = [\<lparr>member_id = 1, member_userId = ''u1'', member_voyageTeamId = 1\<rparr>,
                          \<lparr>member_id = 2, member_userId = ''u2'', member_voyageTeamId = 1\<rparr>],
      techStackCategory = [\<lparr>category_id = 1, category_name = ''Frontend'', category_description = ''UI''\<rparr>],
      teamTechStackItem = [], teamTechStackItemVote = [], itemSeq = 1, voteSeq = 1\<rparr>"

definition ada :: Request where
  "ada = \<lparr>req_userId = ''u1''\<rparr>"

definition bob :: Request where
  "bob = \<lparr>req_userId = ''u2''\<rparr>"

definition eve :: Request where
  "eve = \<lparr>req_userId = ''u9''\<rparr>"

definition react :: CreateTeamTechDto where
  "react = \<lparr>techName = ''React'', techCategoryId = 1\<rparr>"

text \<open>\<open>store1\<close>: Ada has proposed React. \<open>store2\<close>: Bob has voted for it too.\<close>

definition store1 :: store where
  "store1 = store0
     \<lparr>teamTechStackItem := [\<lparr>item_id = 1, item_name = ''React'', item_categoryId = 1,
                              item_voyageTeamId = 1, item_isSelected = False\<rparr>],
      teamTechStackItemVote := [\<lparr>vote_id = 1, vote_teamTechId = 1, vote_teamMemberId = 1,
                                  vote_createdAt = 100, vote_updatedAt = 100\<rparr>],
      itemSeq := 2, voteSeq := 2\<rparr>"

definition store2 :: store where
  "store2 = store1
     \<lparr>teamTechStackItemVote := [\<lparr>vote_id = 1, vote_teamTechId = 1, vote_teamMemberId = 1,
                                  vote_createdAt = 100, vote_updatedAt = 100\<rparr>,
                                \<lparr>vote_id = 2, vote_teamTechId = 1, vote_teamMemberId = 2,
                                  vote_createdAt = 200, vote_updatedAt = 200\<rparr>],
      voteSeq := 3\<rparr>"

definition four_selected :: UpdateTechSelectionsDto where
  "four_selected = \<lparr>categories = [\<lparr>categoryId = 1, techs =
      [\<lparr>techId = 1, isSelected = True\<rparr>, \<lparr>techId = 2, isSelected = True\<rparr>,
       \<lparr>techId = 3, isSelected = True\<rparr>, \<lparr>techId = 4, isSelected = True\<rparr>]\<rparr>]\<rparr>"

definition three_selected :: UpdateTechSelectionsDto where
  "three_selected = \<lparr>categories = [\<lparr>categoryId = 1, techs =
      [\<lparr>techId = 1, isSelected = True\<rparr>, \<lparr>techId = 2, isSelected = True\<rparr>,
       \<lparr>techId = 3, isSelected = True\<rparr>, \<lparr>techId = 4, isSelected = False\<rparr>]\<rparr>]\<rparr>"

definition checkin :: "(string \<times> property) list" where
  "checkin = [(''voyageTeamMemberId'', Value (JNumber 1)),
              (''responses'', Responses
                 [\<lparr>dto_questionId = JNumber 2, dto_text = JUndefined, dto_numeric = JNumber 0,
                   dto_boolean = JBoolean False, dto_optionChoiceId = JUndefined\<rparr>])]"

definition checkin_entry :: "(string \<times> jsval) list" where
  "checkin_entry = [(''questionId'', JNumber 2), (''text'', JNull), (''numeric'', JNull),
                     (''boolean'', JNull), (''optionChoiceId'', JNull)]"

text \<open>
  The two votes, a proposal for a category the store does not hold, a second proposal with
  the store after it, and batches of selections.
\<close>

definition adas_vote :: TeamTechStackItemVote where
  "adas_vote = \<lparr>vote_id = 1, vote_teamTechId = 1, vote_teamMemberId = 1,
                 vote_createdAt = 100, vote_updatedAt = 100\<rparr>"

definition bobs_vote :: TeamTechStackItemVote where
  "bobs_vote = \<lparr>vote_id = 2, vote_teamTechId = 1, vote_teamMemberId = 2,
                 vote_createdAt = 200, vote_updatedAt = 200\<rparr>"


definition vue :: CreateTeamTechDto where
  "vue = \<lparr>techName = ''Vue'', techCategoryId = 1\<rparr>"

definition store3 :: store where
  "store3 = store1
     \<lparr>teamTechStackItem := [\<lparr>item_id = 1, item_name = ''React'', item_categoryId = 1,
                              item_voyageTeamId = 1, item_isSelected = False\<rparr>,
                            \<lparr>item_id = 2, item_name = ''Vue'', item_categoryId = 1,
                              item_voyageTeamId = 1, item_isSelected = False\<rparr>],
      teamTechStackItemVote := [adas_vote,
                                \<lparr>vote_id = 2, vote_teamTechId = 2, vote_teamMemberId = 2,
                                  vote_createdAt = 300, vote_updatedAt = 300\<rparr>],
      itemSeq := 3, voteSeq := 3\<rparr>"

definition off_then_on :: UpdateTechSelectionsDto where
  "off_then_on = \<lparr>categories = [\<lparr>categoryId = 1, techs =
      [\<lparr>techId = 1, isSelected = False\<rparr>, \<lparr>techId = 1, isSelected = True\<rparr>]\<rparr>]\<rparr>"

text \<open>
  \<open>store4\<close> holds three items, the second one selected. \<open>across\<close> lists item 1 in its
  first category and item 3 in both, unselected in the first and selected in the second;
  it does not list item 2. \<open>across_missing\<close> lists item 1 and, in its second category,
  an item the store does not hold.
\<close>

definition tech_item :: "int \<Rightarrow> string \<Rightarrow> bool \<Rightarrow> TeamTechStackItem" where
  "tech_item n name sel = \<lparr>item_id = n, item_name = name, item_categoryId = 1,
                            item_voyageTeamId = 1, item_isSelected = sel\<rparr>"

definition store4 :: store where
  "store4 = store3
     \<lparr>teamTechStackItem := [tech_item 1 ''React'' False, tech_item 2 ''Vue'' True,
                            tech_item 3 ''Svelte'' False],
      itemSeq := 4\<rparr>"

definition across :: UpdateTechSelectionsDto where
  "across = \<lparr>categories =
      [\<lparr>categoryId = 1, techs = [\<lparr>techId = 1, isSelected = True\<rparr>, \<lparr>techId = 3, isSelected = False\<rparr>]\<rparr>,
       \<lparr>categoryId = 2, techs = [\<lparr>techId = 3, isSelected = True\<rparr>]\<rparr>]\<rparr>"

definition across_missing :: UpdateTechSelectionsDto where
  "across_missing = \<lparr>categories =
      [\<lparr>categoryId = 1, techs = [\<lparr>techId = 1, isSelected = True\<rparr>]\<rparr>,
       \<lparr>categoryId = 2, techs = [\<lparr>techId = 9, isSelected = True\<rparr>]\<rparr>]\<rparr>"

definition react_item :: "bool \<Rightarrow> TeamTechStackItem" where
  "react_item sel = \<lparr>item_id = 1, item_name = ''React'', item_categoryId = 1,
                      item_voyageTeamId = 1, item_isSelected = sel\<rparr>"

section \<open>Properties\<close>

subsection \<open>The selection cap\<close>

lemma numberToString_cap: "numberToString (int MAX_SELECTION_COUNT) = ''3''"
  by (simp add: numberToString_def MAX_SELECTION_COUNT_def digits.simps)

lemma foldl_count:
  "foldl (\<lambda>acc tech. acc + (if isSelected tech then 1 else 0)) a ts
     = a + length (filter isSelected ts)"
  by (induction ts arbitrary: a) simp_all

lemma selectCount_filter: "selectCount c = length (filter isSelected (techs c))"
  by (simp add: selectCount_def foldl_count)

lemma checkSelectionCounts_over:
  "\<exists>c \<in> set cs. MAX_SELECTION_COUNT < selectCount c \<Longrightarrow>
     checkSelectionCounts cs = Inl (BadRequestException ''Only 3 selections allowed per category'')"
  by (induction cs) (auto simp: numberToString_cap)

lemma checkSelectionCounts_within:
  "\<forall>c \<in> set cs. selectCount c \<le> MAX_SELECTION_COUNT \<Longrightarrow> checkSelectionCounts cs = Inr ()"
  by (induction cs) auto

lemma checkSelectionCounts_error:
  "checkSelectionCounts cs = Inl e \<Longrightarrow>
     e = BadRequestException ''Only 3 selections allowed per category''"
  by (induction cs) (auto simp: numberToString_cap split: if_splits)

text \<open>
  C3. If some category of the input has more than three entries with \<open>isSelected\<close> true,
  \<open>updateTechStackSelections\<close> throws the cap's BadRequest and the store is the one it
  was given, whoever the caller is and whatever the store holds: the count comes before
  the identity lookup and before the transaction. If every category has at most three
  such entries, three included, the count passes.
\<close>

theorem updateTechStackSelections_cap:
  "((\<exists>c \<in> set (categories dto). 3 < length (filter isSelected (techs c))) \<longrightarrow>
      updateTechStackSelections s req teamId dto
        = (Inl (BadRequestException ''Only 3 selections allowed per category''), s))
   \<and> ((\<forall>c \<in> set (categories dto). length (filter isSelected (techs c)) \<le> 3) \<longrightarrow>
      checkSelectionCounts (categories dto) = Inr ())"
proof (intro conjI impI)
  assume "\<exists>c \<in> set (categories dto). 3 < length (filter isSelected (techs c))"
  then have "\<exists>c \<in> set (categories dto). MAX_SELECTION_COUNT < selectCount c"
    by (simp add: selectCount_filter MAX_SELECTION_COUNT_def)
  then have "checkSelectionCounts (categories dto)
      = Inl (BadRequestException ''Only 3 selections allowed per category'')"
    by (rule checkSelectionCounts_over)
  then show "updateTechStackSelections s req teamId dto
        = (Inl (BadRequestException ''Only 3 selections allowed per category''), s)"
    by (simp add: updateTechStackSelections_def)
next
  assume "\<forall>c \<in> set (categories dto). length (filter isSelected (techs c)) \<le> 3"
  then have "\<forall>c \<in> set (categories dto). selectCount c \<le> MAX_SELECTION_COUNT"
    by (simp add: selectCount_filter MAX_SELECTION_COUNT_def)
  then show "checkSelectionCounts (categories dto) = Inr ()"
    by (rule checkSelectionCounts_within)
qed

theorem updateTechStackSelections_cap_witness:
  "(\<exists>c \<in> set (categories four_selected). 3 < length (filter isSelected (techs c)))
   \<and> updateTechStackSelections store1 eve 1 four_selected
        = (Inl (BadRequestException ''Only 3 selections allowed per category''), store1)
   \<and> map (\<lambda>c. length (filter isSelected (techs c))) (categories three_selected) = [3]
   \<and> checkSelectionCounts (categories three_selected) = Inr ()"
proof -
  have c: "map (\<lambda>c. length (filter isSelected (techs c))) (categories three_selected) = [3]"
    by (simp add: three_selected_def)
  have a: "\<exists>c \<in> set (categories four_selected). 3 < length (filter isSelected (techs c))"
    by (simp add: four_selected_def)
  have b: "\<forall>c \<in> set (categories three_selected). length (filter isSelected (techs c)) \<le> 3"
    by (simp add: three_selected_def)
  from a b c updateTechStackSelections_cap [of four_selected store1 eve 1]
    updateTechStackSelections_cap [of three_selected store1 eve 1]
  show ?thesis by blast
qed

subsection \<open>The identity gate\<close>

lemma findVoyageMemberId_None:
  "\<not> (\<exists>m \<in> set (voyageTeamMember s).
         member_userId m = req_userId req \<and> member_voyageTeamId m = teamId)
   \<Longrightarrow> findVoyageMemberId s req teamId = None"
  by (auto simp: findVoyageMemberId_def voyageTeamMember_findUnique_def find_None_iff
      split: option.splits)

text \<open>
  C8. A caller with no membership row for the team gets BadRequest from each of the four
  writing operations, and the store each of them leaves is the store it was given.
\<close>

theorem identity_gate:
  assumes "\<not> (\<exists>m \<in> set (voyageTeamMember s).
                 member_userId m = req_userId req \<and> member_voyageTeamId m = teamId)"
  shows "is_BadRequest (fst (updateTechStackSelections s req teamId dto))
         \<and> snd (updateTechStackSelections s req teamId dto) = s
         \<and> is_BadRequest (fst (addNewTeamTech s now req teamId cdto))
         \<and> snd (addNewTeamTech s now req teamId cdto) = s
         \<and> is_BadRequest (fst (addExistingTechVote s now req teamId tid))
         \<and> snd (addExistingTechVote s now req teamId tid) = s
         \<and> is_BadRequest (fst (removeVote s req teamId tid))
         \<and> snd (removeVote s req teamId tid) = s"
proof -
  have none: "findVoyageMemberId s req teamId = None"
    using assms by (rule findVoyageMemberId_None)
  have upd: "is_BadRequest (fst (updateTechStackSelections s req teamId dto))
         \<and> snd (updateTechStackSelections s req teamId dto) = s"
    by (auto simp: updateTechStackSelections_def none split: sum.splits
        dest: checkSelectionCounts_error)
  have new: "is_BadRequest (fst (addNewTeamTech s now req teamId cdto))
         \<and> snd (addNewTeamTech s now req teamId cdto) = s"
    by (simp add: addNewTeamTech_def none)
  have add: "is_BadRequest (fst (addExistingTechVote s now req teamId tid))
         \<and> snd (addExistingTechVote s now req teamId tid) = s"
    by (simp add: addExistingTechVote_def none split: option.splits)
  have rem: "is_BadRequest (fst (removeVote s req teamId tid))
         \<and> snd (removeVote s req teamId tid) = s"
    by (simp add: removeVote_def none)
  from upd new add rem show ?thesis by simp
qed

theorem identity_gate_witness:
  "\<not> (\<exists>m \<in> set (voyageTeamMember store1).
         member_userId m = req_userId eve \<and> member_voyageTeamId m = 1)
   \<and> is_BadRequest (fst (updateTechStackSelections store1 eve 1 three_selected))
   \<and> snd (updateTechStackSelections store1 eve 1 three_selected) = store1
   \<and> is_BadRequest (fst (addNewTeamTech store1 300 eve 1 react))
   \<and> snd (addNewTeamTech store1 300 eve 1 react) = store1
   \<and> is_BadRequest (fst (addExistingTechVote store1 300 eve 1 1))
   \<and> snd (addExistingTechVote store1 300 eve 1 1) = store1
   \<and> is_BadRequest (fst (removeVote store1 eve 1 1))
   \<and> snd (removeVote store1 eve 1 1) = store1"
proof -
  have h: "\<not> (\<exists>m \<in> set (voyageTeamMember store1).
                member_userId m = req_userId eve \<and> member_voyageTeamId m = 1)"
    by (simp add: store1_def store0_def eve_def)
  from h identity_gate [OF h, of three_selected 300 react 1] show ?thesis by simp
qed

subsection \<open>The catalog read\<close>

text \<open>
  C7. The claim is that the catalog read fails with NotFound when the team does not
  exist. Team 7 is not in \<open>store1\<close>: \<open>validateTeamId\<close> rejects it with NotFound, and
  \<open>getAllTechItemsByTeamId\<close> all the same returns the categories, each with no item.
\<close>

theorem getAllTechItemsByTeamId_absent_team:
  "voyageTeam_findUnique store1 7 = None
   \<and> validateTeamId store1 7 = Inl (NotFoundException ''Team (id: 7) doesn't exist.'')
   \<and> getAllTechItemsByTeamId store1 7 =
       Inr [\<lparr>cc_id = 1, cc_name = ''Frontend'', cc_description = ''UI'',
             cc_teamTechStackItems = []\<rparr>]"
  by (simp add: voyageTeam_findUnique_def validateTeamId_def getAllTechItemsByTeamId_def
      techStackCategory_findMany_def store1_def store0_def numberToString_def digits.simps)

lemma getAllTechItemsByTeamId_returns:
  "getAllTechItemsByTeamId s teamId = Inr (techStackCategory_findMany s teamId)"
  by (simp add: getAllTechItemsByTeamId_def)

subsection \<open>Form responses\<close>

lemma responseDtoToArray_loop_result:
  "responseDtoToArray_loop responses acc = Inr out \<Longrightarrow>
     out = acc @ map pushed (responsesOf responses)"
proof (induction responses acc rule: responseDtoToArray_loop.induct)
  case (1 responsesArray)
  then show ?case by simp
next
  case (2 index p rest responsesArray)
  then show ?case by (cases p) (auto split: if_splits)
qed

lemma responseDtoToArray_result:
  "responseDtoToArray responses = Inr out \<Longrightarrow> out = map pushed (responsesOf responses)"
  using responseDtoToArray_loop_result [of responses "[]" out]
  by (simp add: responseDtoToArray_def)

lemma pushed_keys:
  "map fst (pushed v) = [''questionId'', ''text'', ''numeric'', ''boolean'', ''optionChoiceId'']"
  by (simp add: pushed_def)

lemma pushed_questionId: "map_of (pushed v) ''questionId'' = Some (dto_questionId v)"
  by (simp add: pushed_def)

lemma pushed_text:
  "map_of (pushed v) ''text'' = Some (if truthy (dto_text v) then dto_text v else JNull)"
  by (simp add: pushed_def)

lemma pushed_numeric:
  "map_of (pushed v) ''numeric'' = Some (if truthy (dto_numeric v) then dto_numeric v else JNull)"
  by (simp add: pushed_def)

lemma pushed_boolean:
  "map_of (pushed v) ''boolean'' = Some (if truthy (dto_boolean v) then dto_boolean v else JNull)"
  by (simp add: pushed_def)

lemma pushed_optionChoiceId:
  "map_of (pushed v) ''optionChoiceId'' =
     Some (if truthy (dto_optionChoiceId v) then dto_optionChoiceId v else JNull)"
  by (simp add: pushed_def)

lemma pushed_false:
  "pushed (v\<lparr>dto_boolean := JBoolean False\<rparr>) = pushed (v\<lparr>dto_boolean := JUndefined\<rparr>)"
  by (simp add: pushed_def)

lemma pushed_zero:
  "pushed (v\<lparr>dto_numeric := JNumber 0\<rparr>) = pushed (v\<lparr>dto_numeric := JUndefined\<rparr>)"
  by (simp add: pushed_def)

lemma pushed_empty:
  "pushed (v\<lparr>dto_text := JString []\<rparr>) = pushed (v\<lparr>dto_text := JUndefined\<rparr>)"
  by (simp add: pushed_def)

lemma responseDtoToArray_loop_returns:
  "\<forall>(index, p) \<in> set responses. index \<in> set responseIndex \<longrightarrow> (\<exists>vs. p = Responses vs) \<Longrightarrow>
     responseDtoToArray_loop responses acc = Inr (acc @ map pushed (responsesOf responses))"
proof (induction responses acc rule: responseDtoToArray_loop.induct)
  case (1 responsesArray)
  then show ?case by simp
next
  case (2 index p rest responsesArray)
  then show ?case by (cases p) auto
qed

text \<open>
  C10. When every \<open>response\<close> or \<open>responses\<close> property of the object passed in holds an
  array, \<open>responseDtoToArray\<close> returns. Every entry of the array it returns is the object
  pushed for one of the responses passed in. It has the keys \<open>questionId\<close>, \<open>text\<close>,
  \<open>numeric\<close>, \<open>boolean\<close> and \<open>optionChoiceId\<close>, in this order; \<open>questionId\<close> is
  copied, and each of the other four is the given value when that is truthy and \<open>null\<close>
  when it is falsy (false, 0, the empty string, \<open>null\<close>, or left out). So the entry for a
  response with \<open>boolean\<close> false, \<open>numeric\<close> 0 or \<open>text\<close> empty is the entry for the
  response without that field.
\<close>

theorem responseDtoToArray_entries:
  "((\<forall>(index, p) \<in> set responses. index \<in> set responseIndex \<longrightarrow> (\<exists>vs. p = Responses vs)) \<longrightarrow>
      responseDtoToArray responses = Inr (map pushed (responsesOf responses)))
   \<and> (\<forall>out e. responseDtoToArray responses = Inr out \<and> e \<in> set out \<longrightarrow>
        (\<exists>v \<in> set (responsesOf responses).
           e = pushed v
           \<and> map fst e = [''questionId'', ''text'', ''numeric'', ''boolean'', ''optionChoiceId'']
           \<and> map_of e ''questionId'' = Some (dto_questionId v)
           \<and> map_of e ''text'' = Some (if truthy (dto_text v) then dto_text v else JNull)
           \<and> map_of e ''numeric'' = Some (if truthy (dto_numeric v) then dto_numeric v else JNull)
           \<and> map_of e ''boolean'' = Some (if truthy (dto_boolean v) then dto_boolean v else JNull)
           \<and> map_of e ''optionChoiceId'' =
                 Some (if truthy (dto_optionChoiceId v) then dto_optionChoiceId v else JNull)
           \<and> pushed (v\<lparr>dto_boolean := JBoolean False\<rparr>) = pushed (v\<lparr>dto_boolean := JUndefined\<rparr>)
           \<and> pushed (v\<lparr>dto_numeric := JNumber 0\<rparr>) = pushed (v\<lparr>dto_numeric := JUndefined\<rparr>)
           \<and> pushed (v\<lparr>dto_text := JString []\<rparr>) = pushed (v\<lparr>dto_text := JUndefined\<rparr>)))"
proof (intro conjI allI impI)
  assume "\<forall>(index, p) \<in> set responses. index \<in> set responseIndex \<longrightarrow> (\<exists>vs. p = Responses vs)"
  from responseDtoToArray_loop_returns [OF this, of "[]"]
  show "responseDtoToArray responses = Inr (map pushed (responsesOf responses))"
    by (simp add: responseDtoToArray_def)
next
  fix out e assume a: "responseDtoToArray responses = Inr out \<and> e \<in> set out"
  then have "out = map pushed (responsesOf responses)"
    by (simp add: responseDtoToArray_result)
  with a obtain v where v: "v \<in> set (responsesOf responses)" and e: "e = pushed v"
    by auto
  show "\<exists>v \<in> set (responsesOf responses).
           e = pushed v
           \<and> map fst e = [''questionId'', ''text'', ''numeric'', ''boolean'', ''optionChoiceId'']
           \<and> map_of e ''questionId'' = Some (dto_questionId v)
           \<and> map_of e ''text'' = Some (if truthy (dto_text v) then dto_text v else JNull)
           \<and> map_of e ''numeric'' = Some (if truthy (dto_numeric v) then dto_numeric v else JNull)
           \<and> map_of e ''boolean'' = Some (if truthy (dto_boolean v) then dto_boolean v else JNull)
           \<and> map_of e ''optionChoiceId'' =
                 Some (if truthy (dto_optionChoiceId v) then dto_optionChoiceId v else JNull)
           \<and> pushed (v\<lparr>dto_boolean := JBoolean False\<rparr>) = pushed (v\<lparr>dto_boolean := JUndefined\<rparr>)
           \<and> pushed (v\<lparr>dto_numeric := JNumber 0\<rparr>) = pushed (v\<lparr>dto_numeric := JUndefined\<rparr>)
           \<and> pushed (v\<lparr>dto_text := JString []\<rparr>) = pushed (v\<lparr>dto_text := JUndefined\<rparr>)"
    unfolding e
    by (rule bexI [OF _ v])
       (intro conjI refl pushed_keys pushed_questionId pushed_text pushed_numeric pushed_boolean
          pushed_optionChoiceId pushed_false pushed_zero pushed_empty)
qed

lemma checkin_arrays:
  "\<forall>(index, p) \<in> set checkin. index \<in> set responseIndex \<longrightarrow> (\<exists>vs. p = Responses vs)"
  by (simp add: checkin_def responseIndex_def)

lemma checkin_pushed: "map pushed (responsesOf checkin) = [checkin_entry]"
  by (simp add: checkin_def responseIndex_def pushed_def checkin_entry_def)

theorem responseDtoToArray_entries_witness:
  "responseDtoToArray checkin = Inr [checkin_entry]
   \<and> checkin_entry \<in> set [checkin_entry]
   \<and> (\<exists>v \<in> set (responsesOf checkin). checkin_entry = pushed v
         \<and> map_of checkin_entry ''boolean''
             = Some (if truthy (dto_boolean v) then dto_boolean v else JNull))"
proof -
  note t = responseDtoToArray_entries [of checkin]
  from t checkin_arrays have "responseDtoToArray checkin = Inr (map pushed (responsesOf checkin))"
    by (rule conjunct1 [THEN mp])
  then have r: "responseDtoToArray checkin = Inr [checkin_entry]"
    by (simp only: checkin_pushed)
  have m: "checkin_entry \<in> set [checkin_entry]"
    by simp
  from t have "responseDtoToArray checkin = Inr [checkin_entry] \<and> checkin_entry \<in> set [checkin_entry] \<longrightarrow>
        (\<exists>v \<in> set (responsesOf checkin).
           checkin_entry = pushed v
           \<and> map fst checkin_entry = [''questionId'', ''text'', ''numeric'', ''boolean'', ''optionChoiceId'']
           \<and> map_of checkin_entry ''questionId'' = Some (dto_questionId v)
           \<and> map_of checkin_entry ''text'' = Some (if truthy (dto_text v) then dto_text v else JNull)
           \<and> map_of checkin_entry ''numeric'' = Some (if truthy (dto_numeric v) then dto_numeric v else JNull)
           \<and> map_of checkin_entry ''boolean'' = Some (if truthy (dto_boolean v) then dto_boolean v else JNull)
           \<and> map_of checkin_entry ''optionChoiceId'' =
                 Some (if truthy (dto_optionChoiceId v) then dto_optionChoiceId v else JNull)
           \<and> pushed (v\<lparr>dto_boolean := JBoolean False\<rparr>) = pushed (v\<lparr>dto_boolean := JUndefined\<rparr>)
           \<and> pushed (v\<lparr>dto_numeric := JNumber 0\<rparr>) = pushed (v\<lparr>dto_numeric := JUndefined\<rparr>)
           \<and> pushed (v\<lparr>dto_text := JString []\<rparr>) = pushed (v\<lparr>dto_text := JUndefined\<rparr>))"
    by (elim conjE allE)
  with r m have "\<exists>v \<in> set (responsesOf checkin). checkin_entry = pushed v
         \<and> map_of checkin_entry ''boolean''
             = Some (if truthy (dto_boolean v) then dto_boolean v else JNull)"
    by blast
  with r m show ?thesis by (intro conjI)
qed

subsection \<open>What the operations do, and the invariant\<close>

lemma find_SomeD: "find P xs = Some x \<Longrightarrow> P x \<and> x \<in> set xs"
  by (induction xs) (auto split: if_splits)

lemma find_Some_ex: "\<exists>x \<in> set xs. P x \<Longrightarrow> \<exists>x. find P xs = Some x"
  by (induction xs) auto

lemma findUnique_SomeD:
  "teamTechStackItem_findUnique s tid = Some i \<Longrightarrow> i \<in> set (teamTechStackItem s) \<and> item_id i = tid"
  by (auto simp: teamTechStackItem_findUnique_def dest: find_SomeD)

lemma findUnique_None_iff:
  "(teamTechStackItem_findUnique s tid = None) = (\<forall>i \<in> set (teamTechStackItem s). item_id i \<noteq> tid)"
  by (auto simp: teamTechStackItem_findUnique_def find_None_iff)

lemma update_op_frame:
  "teamTechStackItem_update_op iid sel s = (r, s') \<Longrightarrow>
     teamTechStackItemVote s' = teamTechStackItemVote s \<and> itemSeq s' = itemSeq s
     \<and> voteSeq s' = voteSeq s
     \<and> map item_id (teamTechStackItem s') = map item_id (teamTechStackItem s)"
  by (auto simp: teamTechStackItem_update_op_def split: option.splits)

lemma run_batch_frame:
  "run_batch (map (\<lambda>tech. teamTechStackItem_update_op (techId tech) (isSelected tech)) ts) s = (r, s') \<Longrightarrow>
     teamTechStackItemVote s' = teamTechStackItemVote s \<and> itemSeq s' = itemSeq s
     \<and> voteSeq s' = voteSeq s
     \<and> map item_id (teamTechStackItem s') = map item_id (teamTechStackItem s)"
proof (induction ts arbitrary: s r s')
  case Nil
  then show ?case by simp
next
  case (Cons t ts)
  obtain r1 s1 where w: "teamTechStackItem_update_op (techId t) (isSelected t) s = (r1, s1)"
    by (cases "teamTechStackItem_update_op (techId t) (isSelected t) s")
  note f1 = update_op_frame [OF w]
  show ?case
  proof (cases r1)
    case (Inl e)
    with Cons.prems w have "s' = s1" by simp
    with f1 show ?thesis by simp
  next
    case (Inr x)
    obtain r2 s2 where b: "run_batch (map (\<lambda>tech. teamTechStackItem_update_op (techId tech) (isSelected tech)) ts) s1 = (r2, s2)"
      by (cases "run_batch (map (\<lambda>tech. teamTechStackItem_update_op (techId tech) (isSelected tech)) ts) s1")
    from Cons.prems w Inr b have "s' = s2" by (auto split: sum.splits)
    with Cons.IH [OF b] f1 show ?thesis by simp
  qed
qed

lemma updateTechStackSelections_frame:
  assumes "updateTechStackSelections s req teamId dto = (r, s')"
  shows "teamTechStackItemVote s' = teamTechStackItemVote s \<and> itemSeq s' = itemSeq s
     \<and> voteSeq s' = voteSeq s
     \<and> map item_id (teamTechStackItem s') = map item_id (teamTechStackItem s)"
proof (cases "s' = s")
  case True
  then show ?thesis by simp
next
  case False
  obtain r1 s1 where b: "run_batch (map (\<lambda>tech. teamTechStackItem_update_op (techId tech) (isSelected tech))
                     (techsArray (categories dto))) s = (r1, s1)"
    by (cases "run_batch (map (\<lambda>tech. teamTechStackItem_update_op (techId tech) (isSelected tech))
                     (techsArray (categories dto))) s")
  from assms False b have "s' = s1"
    by (simp add: updateTechStackSelections_def transaction_def split: sum.splits if_splits)
  with run_batch_frame [OF b] show ?thesis by simp
qed

lemma inv_frame:
  assumes v: "teamTechStackItemVote s' = teamTechStackItemVote s" and q: "itemSeq s' = itemSeq s"
    and m: "map item_id (teamTechStackItem s') = map item_id (teamTechStackItem s)" and i: "inv s"
  shows "inv s'"
proof -
  have ids: "item_id ` set (teamTechStackItem s') = item_id ` set (teamTechStackItem s)"
    using m by (metis set_map)
  have vo: "\<And>x. votesOf s' x = votesOf s x"
    by (simp add: votesOf_def v)
  have c1: "vote_teamTechId ` set (teamTechStackItemVote s') \<subseteq> item_id ` set (teamTechStackItem s')"
    using i by (simp add: inv_def consistent_def v ids)
  have "\<forall>x \<in> item_id ` set (teamTechStackItem s). x < itemSeq s"
    using i unfolding inv_def consistent_def by blast
  then have "\<forall>x \<in> item_id ` set (teamTechStackItem s'). x < itemSeq s'"
    by (simp only: ids q)
  then have c2: "\<forall>i \<in> set (teamTechStackItem s'). item_id i < itemSeq s'"
    by blast
  have c3: "distinct (map votePair (teamTechStackItemVote s'))"
    using i by (simp add: inv_def consistent_def v)
  have c4: "\<forall>w \<in> set (teamTechStackItemVote s'). vote_teamMemberId w \<noteq> 0"
    using i by (simp add: inv_def consistent_def v)
  from c1 c2 c3 c4 have c: "consistent s'"
    unfolding consistent_def by blast
  have "\<forall>x \<in> item_id ` set (teamTechStackItem s). votesOf s x \<noteq> []"
    using i unfolding inv_def zero_vote_free_def by blast
  then have "\<forall>x \<in> item_id ` set (teamTechStackItem s'). votesOf s' x \<noteq> []"
    by (simp only: ids vo)
  then have "zero_vote_free s'"
    unfolding zero_vote_free_def by blast
  with c show ?thesis by (simp add: inv_def)
qed

lemma nameTaken_Conflict:
  "catch_P2002 msg P2002 = ConflictException msg"
  by (simp add: catch_P2002_def P2002_def)

lemma addNewTeamTech_taken:
  assumes "findVoyageMemberId s req teamId = Some m" "m \<noteq> 0" "nameTaken s teamId dto"
  shows "addNewTeamTech s now req teamId dto
         = (Inl (ConflictException
                   (techName dto @ '' already exists in the available team tech stack.'')), s)"
  using assms
  by (simp add: addNewTeamTech_def teamTechStackItem_create_def nameTaken_def nameTaken_Conflict)

lemma teamTechStackItem_create_cases:
  "teamTechStackItem_create s (techName dto) (techCategoryId dto) teamId =
     (if nameTaken s teamId dto then (Inl P2002, s)
      else if \<not> refsExist s teamId dto then (Inl P2003, s)
      else (Inr (proposed s teamId dto),
            s\<lparr>teamTechStackItem := teamTechStackItem s @ [proposed s teamId dto],
              itemSeq := itemSeq s + 1\<rparr>))"
  unfolding teamTechStackItem_create_def nameTaken_def refsExist_def proposed_def Let_def ..

lemma catch_P2002_P2003: "catch_P2002 msg P2003 = P2003"
  by (simp add: catch_P2002_def P2003_def)

lemma addNewTeamTech_unreferenced:
  assumes "findVoyageMemberId s req teamId = Some m" "m \<noteq> 0" "\<not> nameTaken s teamId dto"
    and "\<not> refsExist s teamId dto"
  shows "addNewTeamTech s now req teamId dto = (Inl P2003, s)"
proof -
  have "teamTechStackItem_create s (techName dto) (techCategoryId dto) teamId = (Inl P2003, s)"
    using assms(3,4) by (simp add: teamTechStackItem_create_cases)
  with assms(1,2) show ?thesis
    by (simp add: addNewTeamTech_def catch_P2002_P2003)
qed

lemma addNewTeamTech_fresh:
  assumes "findVoyageMemberId s req teamId = Some m" "m \<noteq> 0" "\<not> nameTaken s teamId dto"
    and "refsExist s teamId dto" and "\<not> voted s (itemSeq s) m"
  shows "addNewTeamTech s now req teamId dto
         = (Inr \<lparr>teamTechStackItemVoteId = voteSeq s, teamTechId = itemSeq s, teamMemberId = m,
                 createdAt = now, updatedAt = now\<rparr>,
            s\<lparr>teamTechStackItem := teamTechStackItem s @ [proposed s teamId dto],
              itemSeq := itemSeq s + 1,
              teamTechStackItemVote := teamTechStackItemVote s @ [cast s now (itemSeq s) m],
              voteSeq := voteSeq s + 1\<rparr>)"
  using assms
  by (simp add: addNewTeamTech_def teamTechStackItem_create_def teamTechStackItemVote_create_def
      nameTaken_def refsExist_def voted_def proposed_def cast_def Let_def)

lemma consistent_not_voted_next: "consistent s \<Longrightarrow> \<not> voted s (itemSeq s) m"
  unfolding consistent_def voted_def by (auto simp: subset_iff image_iff) fastforce

lemma addNewTeamTech_inv:
  assumes "inv s" shows "inv (snd (addNewTeamTech s now req teamId dto))"
proof (cases "findVoyageMemberId s req teamId")
  case None
  with assms show ?thesis by (simp add: addNewTeamTech_def)
next
  case (Some m)
  show ?thesis
  proof (cases "m = 0")
    case True
    with Some assms show ?thesis by (simp add: addNewTeamTech_def)
  next
    case m: False
    show ?thesis
    proof (cases "nameTaken s teamId dto")
      case True
      from addNewTeamTech_taken [OF Some m True] assms show ?thesis by simp
    next
      case False
      show ?thesis
      proof (cases "refsExist s teamId dto")
      case refs: False
      from addNewTeamTech_unreferenced [OF Some m False refs] assms show ?thesis by simp
      next
      case refs: True
      from assms have c: "consistent s" and z: "zero_vote_free s" by (simp_all add: inv_def)
      note nv = consistent_not_voted_next [OF c, of m]
      let ?s' = "s\<lparr>teamTechStackItem := teamTechStackItem s @ [proposed s teamId dto],
              itemSeq := itemSeq s + 1,
              teamTechStackItemVote := teamTechStackItemVote s @ [cast s now (itemSeq s) m],
              voteSeq := voteSeq s + 1\<rparr>"
      have "consistent ?s'"
        using c nv m unfolding consistent_def voted_def
        by (auto simp: proposed_def cast_def votePair_def image_iff subset_iff)
      moreover have "zero_vote_free ?s'"
        using z unfolding zero_vote_free_def votesOf_def
        by (auto simp: proposed_def cast_def)
      ultimately have "inv ?s'" by (simp add: inv_def)
      with addNewTeamTech_fresh [OF Some m False refs nv] show ?thesis by simp
      qed
    qed
  qed
qed

lemma addExistingTechVote_voted:
  assumes "teamTechStackItem_findUnique s tid = Some i"
    "findVoyageMemberId s req teamId = Some m" "m \<noteq> 0" "voted s tid m"
  shows "addExistingTechVote s now req teamId tid
         = (Inl (ConflictException (''User has already voted for techId:'' @ numberToString tid)), s)"
  using assms
  by (simp add: addExistingTechVote_def teamTechStackItemVote_create_def voted_def
      nameTaken_Conflict)

lemma addExistingTechVote_new:
  assumes "teamTechStackItem_findUnique s tid = Some i"
    "findVoyageMemberId s req teamId = Some m" "m \<noteq> 0" "\<not> voted s tid m"
  shows "addExistingTechVote s now req teamId tid
         = (Inr \<lparr>teamTechStackItemVoteId = voteSeq s, teamTechId = tid, teamMemberId = m,
                 createdAt = now, updatedAt = now\<rparr>,
            s\<lparr>teamTechStackItemVote := teamTechStackItemVote s @ [cast s now tid m],
              voteSeq := voteSeq s + 1\<rparr>)"
  using assms
  by (simp add: addExistingTechVote_def teamTechStackItemVote_create_def voted_def cast_def Let_def)

lemma addExistingTechVote_inv:
  assumes "inv s" shows "inv (snd (addExistingTechVote s now req teamId tid))"
proof (cases "teamTechStackItem_findUnique s tid")
  case None
  with assms show ?thesis by (simp add: addExistingTechVote_def)
next
  case (Some i)
  note item = findUnique_SomeD [OF Some]
  show ?thesis
  proof (cases "findVoyageMemberId s req teamId")
    case None
    with Some assms show ?thesis by (simp add: addExistingTechVote_def)
  next
    case m: (Some m)
    show ?thesis
    proof (cases "m = 0")
      case True
      with Some m assms show ?thesis by (simp add: addExistingTechVote_def)
    next
      case m0: False
      show ?thesis
      proof (cases "voted s tid m")
        case True
        from addExistingTechVote_voted [OF Some m m0 True] assms show ?thesis by simp
      next
        case False
        from assms have c: "consistent s" and z: "zero_vote_free s" by (simp_all add: inv_def)
        let ?s' = "s\<lparr>teamTechStackItemVote := teamTechStackItemVote s @ [cast s now tid m],
              voteSeq := voteSeq s + 1\<rparr>"
        have "consistent ?s'"
          using c False item m0 unfolding consistent_def voted_def
          by (auto simp: cast_def votePair_def image_iff subset_iff)
        moreover have "zero_vote_free ?s'"
          using z unfolding zero_vote_free_def votesOf_def by auto
        ultimately have "inv ?s'" by (simp add: inv_def)
        with addExistingTechVote_new [OF Some m m0 False] show ?thesis by simp
      qed
    qed
  qed
qed

lemma removeVote_absent:
  assumes "findVoyageMemberId s req teamId = Some m" "m \<noteq> 0" "\<not> voted s tid m"
  shows "removeVote s req teamId tid = (Inl (NotFoundException ''Record to delete does not exist.''), s)"
proof -
  have v: "teamTechStackItemVote_delete s tid m = (Inl (P2025 ''Record to delete does not exist.''), s)"
    using assms(3) unfolding teamTechStackItemVote_delete_def voted_def by (rule if_not_P)
  show ?thesis
    using assms(1,2) by (simp add: removeVote_def v P2025_def)
qed

lemma removeVote_no_item:
  assumes "findVoyageMemberId s req teamId = Some m" "m \<noteq> 0" "voted s tid m"
    and "\<forall>i \<in> set (teamTechStackItem s). item_id i \<noteq> tid"
  shows "removeVote s req teamId tid = (Inl TypeError, withoutVote s tid m)"
proof -
  have "teamTechStackItem_findUnique (withoutVote s tid m) tid = None"
    using assms(4) by (simp add: findUnique_None_iff withoutVote_def)
  with assms(1-3) show ?thesis
    by (simp add: removeVote_def teamTechStackItemVote_delete_def voted_def withoutVote_def
        teamTechStackItem_findUnique_votes_def)
qed

lemma removeVote_last:
  assumes "findVoyageMemberId s req teamId = Some m" "m \<noteq> 0" "voted s tid m"
    and "\<exists>i \<in> set (teamTechStackItem s). item_id i = tid"
    and "votesOf (withoutVote s tid m) tid = []"
  shows "removeVote s req teamId tid
         = (Inr \<lparr>message = ''The vote and tech stack item were deleted'', statusCode = 200\<rparr>,
            withoutItem (withoutVote s tid m) tid)"
proof -
  from assms(4) obtain i where "teamTechStackItem_findUnique (withoutVote s tid m) tid = Some i"
    using findUnique_None_iff [of "withoutVote s tid m" tid]
    by (cases "teamTechStackItem_findUnique (withoutVote s tid m) tid") (auto simp: withoutVote_def)
  with assms(5) have f: "teamTechStackItem_findUnique_votes (withoutVote s tid m) tid = Some []"
    by (simp add: teamTechStackItem_findUnique_votes_def)
  have d: "teamTechStackItem_delete (withoutVote s tid m) tid
           = (Inr (), withoutItem (withoutVote s tid m) tid)"
    using assms(4) by (simp add: teamTechStackItem_delete_def withoutItem_def withoutVote_def)
  have v: "teamTechStackItemVote_delete s tid m = (Inr (), withoutVote s tid m)"
    using assms(3) by (simp add: teamTechStackItemVote_delete_def voted_def withoutVote_def)
  show ?thesis
    using assms(1,2) by (simp add: removeVote_def v f d)
qed

lemma removeVote_other:
  assumes "findVoyageMemberId s req teamId = Some m" "m \<noteq> 0" "voted s tid m"
    and "\<exists>i \<in> set (teamTechStackItem s). item_id i = tid"
    and "votesOf (withoutVote s tid m) tid \<noteq> []"
  shows "removeVote s req teamId tid
         = (Inr \<lparr>message = ''This vote was deleted'', statusCode = 200\<rparr>, withoutVote s tid m)"
proof -
  from assms(4) obtain i where "teamTechStackItem_findUnique (withoutVote s tid m) tid = Some i"
    using findUnique_None_iff [of "withoutVote s tid m" tid]
    by (cases "teamTechStackItem_findUnique (withoutVote s tid m) tid") (auto simp: withoutVote_def)
  then have f: "teamTechStackItem_findUnique_votes (withoutVote s tid m) tid
                = Some (votesOf (withoutVote s tid m) tid)"
    by (simp add: teamTechStackItem_findUnique_votes_def)
  have v: "teamTechStackItemVote_delete s tid m = (Inr (), withoutVote s tid m)"
    using assms(3) by (simp add: teamTechStackItemVote_delete_def voted_def withoutVote_def)
  show ?thesis
    using assms(1,2,5) by (simp add: removeVote_def v f)
qed

lemma consistent_withoutVote: "consistent s \<Longrightarrow> consistent (withoutVote s tid m)"
  unfolding consistent_def withoutVote_def
  by (auto simp: distinct_map_filter)

lemma votesOf_withoutVote_other:
  "x \<noteq> tid \<Longrightarrow> votesOf (withoutVote s tid m) x = votesOf s x"
  unfolding votesOf_def withoutVote_def
  by (auto intro: filter_cong)

lemma others_keep_votes:
  assumes "zero_vote_free s" "i \<in> set (teamTechStackItem s)" "item_id i \<noteq> tid"
  shows "votesOf (withoutVote s tid m) (item_id i) \<noteq> []"
  using assms by (simp add: votesOf_withoutVote_other zero_vote_free_def)

lemma zero_vote_free_withoutVote:
  assumes "zero_vote_free s"
    and "votesOf (withoutVote s tid m) tid \<noteq> [] \<or> (\<forall>i \<in> set (teamTechStackItem s). item_id i \<noteq> tid)"
  shows "zero_vote_free (withoutVote s tid m)"
  unfolding zero_vote_free_def
proof
  fix i assume "i \<in> set (teamTechStackItem (withoutVote s tid m))"
  then have i: "i \<in> set (teamTechStackItem s)" by (simp add: withoutVote_def)
  show "votesOf (withoutVote s tid m) (item_id i) \<noteq> []"
  proof (cases "item_id i = tid")
    case True
    with assms(2) i show ?thesis by auto
  next
    case False
    with assms(1) i show ?thesis by (rule others_keep_votes)
  qed
qed

lemma votesOf_withoutItem: "votesOf (withoutItem s tid) x = votesOf s x"
  by (simp add: votesOf_def withoutItem_def)

lemma consistent_withoutItem:
  assumes "consistent s" "votesOf s tid = []"
  shows "consistent (withoutItem s tid)"
proof -
  have "\<forall>v \<in> set (teamTechStackItemVote s). vote_teamTechId v \<noteq> tid"
    using assms(2) by (auto simp: votesOf_def filter_empty_conv)
  with assms(1) show ?thesis
    unfolding consistent_def withoutItem_def
    by (auto simp: subset_iff image_iff) fastforce
qed

lemma zero_vote_free_withoutItem:
  assumes "\<forall>i \<in> set (teamTechStackItem s). item_id i \<noteq> tid \<longrightarrow> votesOf s (item_id i) \<noteq> []"
  shows "zero_vote_free (withoutItem s tid)"
  using assms unfolding zero_vote_free_def
  by (auto simp: votesOf_withoutItem) (simp add: withoutItem_def)+

lemma removeVote_inv:
  assumes "inv s" shows "inv (snd (removeVote s req teamId tid))"
proof (cases "findVoyageMemberId s req teamId")
  case None
  with assms show ?thesis by (simp add: removeVote_def)
next
  case m: (Some m)
  from assms have c: "consistent s" and z: "zero_vote_free s" by (simp_all add: inv_def)
  have c1: "consistent (withoutVote s tid m)" using c by (rule consistent_withoutVote)
  show ?thesis
  proof (cases "m = 0")
    case True
    with m assms show ?thesis by (simp add: removeVote_def)
  next
    case m0: False
    show ?thesis
    proof (cases "voted s tid m")
      case False
      from removeVote_absent [OF m m0 False] assms show ?thesis by simp
    next
      case v: True
      show ?thesis
      proof (cases "\<exists>i \<in> set (teamTechStackItem s). item_id i = tid")
        case False
        then have n: "\<forall>i \<in> set (teamTechStackItem s). item_id i \<noteq> tid" by blast
        then have "zero_vote_free (withoutVote s tid m)"
          using z by (simp add: zero_vote_free_withoutVote)
        with c1 removeVote_no_item [OF m m0 v n] show ?thesis by (simp add: inv_def)
      next
        case i: True
        show ?thesis
        proof (cases "votesOf (withoutVote s tid m) tid = []")
          case True
          have "consistent (withoutItem (withoutVote s tid m) tid)"
            using c1 True by (rule consistent_withoutItem)
          moreover have "zero_vote_free (withoutItem (withoutVote s tid m) tid)"
          proof (rule zero_vote_free_withoutItem, intro ballI impI)
            fix j assume "j \<in> set (teamTechStackItem (withoutVote s tid m))" "item_id j \<noteq> tid"
            then have "j \<in> set (teamTechStackItem s)" "item_id j \<noteq> tid"
              by (simp_all add: withoutVote_def)
            with z show "votesOf (withoutVote s tid m) (item_id j) \<noteq> []"
              by (rule others_keep_votes)
          qed
          ultimately show ?thesis
            using removeVote_last [OF m m0 v i True] by (simp add: inv_def)
        next
          case False
          then have "zero_vote_free (withoutVote s tid m)"
            using z by (simp add: zero_vote_free_withoutVote)
          with c1 removeVote_other [OF m m0 v i False] show ?thesis by (simp add: inv_def)
        qed
      qed
    qed
  qed
qed

lemma updateTechStackSelections_inv:
  assumes "inv s" shows "inv (snd (updateTechStackSelections s req teamId dto))"
proof -
  obtain r s' where u: "updateTechStackSelections s req teamId dto = (r, s')"
    by (cases "updateTechStackSelections s req teamId dto")
  from updateTechStackSelections_frame [OF u] assms have "inv s'"
    by (intro inv_frame [of s' s]) simp_all
  with u show ?thesis by simp
qed

lemma inv_step: "inv s \<Longrightarrow> inv (step s c)"
  by (cases c)
     (simp_all add: updateTechStackSelections_inv addNewTeamTech_inv addExistingTechVote_inv
        removeVote_inv)

lemma inv_run: "inv s \<Longrightarrow> inv (run s cs)"
  unfolding run_def by (induction cs arbitrary: s) (simp_all add: inv_step)

lemma initial_inv: "initial s \<Longrightarrow> inv s"
  by (simp add: initial_def inv_def consistent_def zero_vote_free_def)

subsection \<open>Votes, proposals and the cascade\<close>

lemma filter_distinct_key:
  "distinct (map f xs) \<Longrightarrow> v \<in> set xs \<Longrightarrow> filter (\<lambda>w. f w \<noteq> f v) xs = remove1 v xs"
proof (induction xs)
  case Nil
  then show ?case by simp
next
  case (Cons x xs)
  show ?case
  proof (cases "x = v")
    case True
    with Cons.prems have "\<forall>w \<in> set xs. f w \<noteq> f v" by (auto simp: image_iff)
    then have "filter (\<lambda>w. f w \<noteq> f v) xs = xs" by (simp add: filter_id_conv)
    with True show ?thesis by simp
  next
    case False
    with Cons.prems have "v \<in> set xs" "f x \<noteq> f v" by (auto simp: image_iff)
    with Cons False show ?thesis by simp
  qed
qed

lemma withoutVote_remove1:
  assumes "distinct (map votePair (teamTechStackItemVote s))" "v \<in> set (teamTechStackItemVote s)"
    "vote_teamTechId v = tid" "vote_teamMemberId v = m"
  shows "withoutVote s tid m = s\<lparr>teamTechStackItemVote := remove1 v (teamTechStackItemVote s)\<rparr>"
proof -
  have "(\<lambda>w. \<not> (vote_teamTechId w = tid \<and> vote_teamMemberId w = m)) = (\<lambda>w. votePair w \<noteq> votePair v)"
    using assms(3,4) by (auto simp: votePair_def fun_eq_iff)
  with filter_distinct_key [OF assms(1,2)] show ?thesis
    by (simp add: withoutVote_def)
qed

lemma votesOf_remove1:
  assumes "distinct (map votePair (teamTechStackItemVote s))" "v \<in> set (teamTechStackItemVote s)"
    "vote_teamTechId v = tid" "vote_teamMemberId v = m"
  shows "length (votesOf (withoutVote s tid m) tid) = length (votesOf s tid) - 1"
proof -
  have d: "distinct (teamTechStackItemVote s)" using assms(1) by (simp add: distinct_map)
  have "votesOf (withoutVote s tid m) tid = remove1 v (votesOf s tid)"
    unfolding withoutVote_remove1 [OF assms] votesOf_def
    using d by (simp add: filter_remove1)
  moreover have "v \<in> set (votesOf s tid)" using assms(2,3) by (simp add: votesOf_def)
  ultimately show ?thesis by (simp add: length_remove1)
qed

lemma removeVote_cascade_store:
  assumes member: "findVoyageMemberId s req teamId = Some m" "m \<noteq> 0"
    and vote: "v \<in> set (teamTechStackItemVote s)" "vote_teamTechId v = tid" "vote_teamMemberId v = m"
    and item: "\<exists>i \<in> set (teamTechStackItem s). item_id i = tid"
    and unique: "distinct (map votePair (teamTechStackItemVote s))"
  shows "(length (votesOf s tid) = 1 \<longrightarrow>
            removeVote s req teamId tid
              = (Inr \<lparr>message = ''The vote and tech stack item were deleted'', statusCode = 200\<rparr>,
                 s\<lparr>teamTechStackItemVote := remove1 v (teamTechStackItemVote s),
                   teamTechStackItem := filter (\<lambda>i. item_id i \<noteq> tid) (teamTechStackItem s)\<rparr>))
         \<and> (2 \<le> length (votesOf s tid) \<longrightarrow>
            removeVote s req teamId tid
              = (Inr \<lparr>message = ''This vote was deleted'', statusCode = 200\<rparr>,
                 s\<lparr>teamTechStackItemVote := remove1 v (teamTechStackItemVote s)\<rparr>))"
proof -
  have voted: "voted s tid m" using vote by (auto simp: voted_def)
  note w = withoutVote_remove1 [OF unique vote]
  note n = votesOf_remove1 [OF unique vote]
  show ?thesis
  proof (intro conjI impI)
    assume "length (votesOf s tid) = 1"
    with n have "votesOf (withoutVote s tid m) tid = []" by simp
    from removeVote_last [OF member voted item this] show "removeVote s req teamId tid
              = (Inr \<lparr>message = ''The vote and tech stack item were deleted'', statusCode = 200\<rparr>,
                 s\<lparr>teamTechStackItemVote := remove1 v (teamTechStackItemVote s),
                   teamTechStackItem := filter (\<lambda>i. item_id i \<noteq> tid) (teamTechStackItem s)\<rparr>)"
      by (simp add: w withoutItem_def)
  next
    assume "2 \<le> length (votesOf s tid)"
    with n have "votesOf (withoutVote s tid m) tid \<noteq> []" by auto
    from removeVote_other [OF member voted item this] show "removeVote s req teamId tid
              = (Inr \<lparr>message = ''This vote was deleted'', statusCode = 200\<rparr>,
                 s\<lparr>teamTechStackItemVote := remove1 v (teamTechStackItemVote s)\<rparr>)"
      by (simp add: w)
  qed
qed

lemma ada_member1: "findVoyageMemberId store1 ada 1 = Some 1"
  by (simp add: findVoyageMemberId_def voyageTeamMember_findUnique_def store1_def store0_def ada_def)

lemma ada_member2: "findVoyageMemberId store2 ada 1 = Some 1"
  by (simp add: findVoyageMemberId_def voyageTeamMember_findUnique_def store2_def store1_def store0_def ada_def)

lemma reachable_inv: "initial s0 \<Longrightarrow> inv (run s0 cs)"
  by (simp add: initial_inv inv_run)

lemma consistent_voted_item:
  assumes "consistent s" "voted s tid m"
  shows "\<exists>i. teamTechStackItem_findUnique s tid = Some i"
proof -
  from assms have "\<exists>i \<in> set (teamTechStackItem s). item_id i = tid"
    unfolding consistent_def voted_def by (auto simp: subset_iff image_iff) fastforce
  then show ?thesis
    using findUnique_None_iff [of s tid] by (cases "teamTechStackItem_findUnique s tid") auto
qed

lemma consistent_voted_member: "consistent s \<Longrightarrow> voted s tid m \<Longrightarrow> m \<noteq> 0"
  unfolding consistent_def voted_def by blast

lemma addExistingTechVote_result:
  assumes "addExistingTechVote s now req teamId tid = (Inr r, s')"
    and "findVoyageMemberId s req teamId = Some m"
  shows "teamTechId r = tid \<and> teamMemberId r = m
         \<and> teamTechStackItemVote s' = teamTechStackItemVote s @
              [\<lparr>vote_id = teamTechStackItemVoteId r, vote_teamTechId = teamTechId r,
                vote_teamMemberId = teamMemberId r, vote_createdAt = createdAt r,
                vote_updatedAt = updatedAt r\<rparr>]"
proof (cases "teamTechStackItem_findUnique s tid")
  case None
  with assms show ?thesis by (simp add: addExistingTechVote_def)
next
  case (Some i)
  show ?thesis
  proof (cases "m = 0")
    case True
    with assms Some show ?thesis by (simp add: addExistingTechVote_def)
  next
    case m0: False
    show ?thesis
    proof (cases "voted s tid m")
      case True
      from addExistingTechVote_voted [OF Some assms(2) m0 True] assms(1) show ?thesis by simp
    next
      case False
      from addExistingTechVote_new [OF Some assms(2) m0 False] assms(1) show ?thesis
        by (auto simp: cast_def)
    qed
  qed
qed

text \<open>
  C6. In a store reached from an initial one by any requests, with the caller resolving
  to member \<open>m\<close>: if \<open>m\<close> has a vote for item \<open>tid\<close>, \<open>addExistingTechVote\<close> throws
  Conflict and the store is unchanged. No two votes of the store are for the same item by
  the same member, before the call and after it. When the call returns, the result gives
  the identifier, item, member and timestamps of the one vote it appended.
\<close>

theorem addExistingTechVote_once:
  assumes "initial s0" and "s = run s0 cs"
    and "findVoyageMemberId s req teamId = Some m"
  shows "((\<exists>v \<in> set (teamTechStackItemVote s). vote_teamTechId v = tid \<and> vote_teamMemberId v = m) \<longrightarrow>
            addExistingTechVote s now req teamId tid
              = (Inl (ConflictException (''User has already voted for techId:'' @ numberToString tid)), s))
         \<and> distinct (map votePair (teamTechStackItemVote s))
         \<and> distinct (map votePair (teamTechStackItemVote (snd (addExistingTechVote s now req teamId tid))))
         \<and> (\<forall>r s'. addExistingTechVote s now req teamId tid = (Inr r, s') \<longrightarrow>
               teamTechId r = tid \<and> teamMemberId r = m
               \<and> teamTechStackItemVote s' = teamTechStackItemVote s @
                    [\<lparr>vote_id = teamTechStackItemVoteId r, vote_teamTechId = teamTechId r,
                      vote_teamMemberId = teamMemberId r, vote_createdAt = createdAt r,
                      vote_updatedAt = updatedAt r\<rparr>])"
proof -
  from assms(1,2) have i: "inv s" by (simp add: reachable_inv)
  then have c: "consistent s" by (simp add: inv_def)
  have a: "(\<exists>v \<in> set (teamTechStackItemVote s). vote_teamTechId v = tid \<and> vote_teamMemberId v = m) \<longrightarrow>
            addExistingTechVote s now req teamId tid
              = (Inl (ConflictException (''User has already voted for techId:'' @ numberToString tid)), s)"
  proof
    assume "\<exists>v \<in> set (teamTechStackItemVote s). vote_teamTechId v = tid \<and> vote_teamMemberId v = m"
    then have v: "voted s tid m" by (simp add: voted_def)
    with c obtain i where "teamTechStackItem_findUnique s tid = Some i"
      using consistent_voted_item by blast
    from c v have "m \<noteq> 0" by (rule consistent_voted_member)
    from addExistingTechVote_voted [OF \<open>teamTechStackItem_findUnique s tid = Some i\<close> assms(3) this v]
    show "addExistingTechVote s now req teamId tid
              = (Inl (ConflictException (''User has already voted for techId:'' @ numberToString tid)), s)" .
  qed
  have b: "distinct (map votePair (teamTechStackItemVote s))"
    using c by (simp add: consistent_def)
  have "inv (snd (addExistingTechVote s now req teamId tid))"
    using i by (rule addExistingTechVote_inv)
  then have d: "distinct (map votePair (teamTechStackItemVote (snd (addExistingTechVote s now req teamId tid))))"
    by (simp add: inv_def consistent_def)
  from a b d addExistingTechVote_result [OF _ assms(3)] show ?thesis by blast
qed

lemma run_store1: "run store0 [ProposeTech 100 ada 1 react] = store1"
proof -
  have m: "findVoyageMemberId store0 ada 1 = Some 1"
    by (simp add: findVoyageMemberId_def voyageTeamMember_findUnique_def store0_def ada_def)
  have one: "(1::int) \<noteq> 0" by simp
  have n: "\<not> nameTaken store0 1 react" by (simp add: nameTaken_def store0_def)
  have refs: "refsExist store0 1 react" by (simp add: refsExist_def store0_def react_def)
  have nv: "\<not> voted store0 (itemSeq store0) 1" by (simp add: voted_def store0_def)
  from addNewTeamTech_fresh [OF m one n refs nv, of 100] show ?thesis
    by (simp add: run_def proposed_def cast_def store1_def store0_def react_def)
qed

lemma initial_store0: "initial store0"
  by (simp add: initial_def store0_def)

lemma bob_member1: "findVoyageMemberId store1 bob 1 = Some 2"
  by (simp add: findVoyageMemberId_def voyageTeamMember_findUnique_def store1_def store0_def bob_def)

lemma store1_bob_votes:
  "addExistingTechVote store1 200 bob 1 1
     = (Inr \<lparr>teamTechStackItemVoteId = 2, teamTechId = 1, teamMemberId = 2,
             createdAt = 200, updatedAt = 200\<rparr>, store2)"
proof -
  have two: "(2::int) \<noteq> 0" by simp
  have f: "teamTechStackItem_findUnique store1 1
             = Some \<lparr>item_id = 1, item_name = ''React'', item_categoryId = 1,
                     item_voyageTeamId = 1, item_isSelected = False\<rparr>"
    by (simp add: teamTechStackItem_findUnique_def store1_def store0_def)
  have nv: "\<not> voted store1 1 2"
    by (simp add: voted_def store1_def store0_def)
  from addExistingTechVote_new [OF f bob_member1 two nv, of 200] show ?thesis
    by (simp add: cast_def store2_def store1_def store0_def)
qed

lemma run_store2: "run store0 [ProposeTech 100 ada 1 react, AddVote 200 bob 1 1] = store2"
proof -
  have "run store0 [ProposeTech 100 ada 1 react, AddVote 200 bob 1 1]
          = step (run store0 [ProposeTech 100 ada 1 react]) (AddVote 200 bob 1 1)"
    by (simp add: run_def)
  then show ?thesis by (simp add: run_store1 store1_bob_votes)
qed

theorem addExistingTechVote_once_witness:
  "initial store0 \<and> store1 = run store0 [ProposeTech 100 ada 1 react]
   \<and> findVoyageMemberId store1 ada 1 = Some 1
   \<and> (\<exists>v \<in> set (teamTechStackItemVote store1). vote_teamTechId v = 1 \<and> vote_teamMemberId v = 1)
   \<and> addExistingTechVote store1 200 ada 1 1
        = (Inl (ConflictException ''User has already voted for techId:1''), store1)
   \<and> addExistingTechVote store1 200 bob 1 1
        = (Inr \<lparr>teamTechStackItemVoteId = 2, teamTechId = 1, teamMemberId = 2,
                createdAt = 200, updatedAt = 200\<rparr>, store2)
   \<and> teamTechStackItemVote store2 = teamTechStackItemVote store1 @ [bobs_vote]"
proof -
  have r: "store1 = run store0 [ProposeTech 100 ada 1 react]" by (simp add: run_store1)
  have v: "\<exists>v \<in> set (teamTechStackItemVote store1). vote_teamTechId v = 1 \<and> vote_teamMemberId v = 1"
    by (simp add: store1_def store0_def)
  have n: "numberToString 1 = ''1''"
    by (simp add: numberToString_def digits.simps)
  from addExistingTechVote_once [OF initial_store0 r ada_member1, of 1 200] v
  have a: "addExistingTechVote store1 200 ada 1 1
        = (Inl (ConflictException ''User has already voted for techId:1''), store1)"
    by (simp add: n)
  note b = store1_bob_votes
  from addExistingTechVote_once [OF initial_store0 r bob_member1, of 1 200] b
  have c: "teamTechStackItemVote store2 = teamTechStackItemVote store1 @ [bobs_vote]"
    by (simp add: bobs_vote_def)
  from initial_store0 r ada_member1 v a b c show ?thesis by simp
qed

lemma addNewTeamTech_gate:
  "falsy_id (findVoyageMemberId s req teamId) \<Longrightarrow>
     addNewTeamTech s now req teamId dto = (Inl (BadRequestException ''Invalid User or Team Id''), s)"
  by (cases "findVoyageMemberId s req teamId") (simp_all add: addNewTeamTech_def)

lemma addNewTeamTech_collides:
  assumes "findVoyageMemberId s req teamId = Some m" "m \<noteq> 0" "\<not> nameTaken s teamId dto"
    and "refsExist s teamId dto" and "voted s (itemSeq s) m"
  shows "addNewTeamTech s now req teamId dto
         = (Inl (ConflictException
                   (techName dto @ '' already exists in the available team tech stack.'')),
            s\<lparr>teamTechStackItem := teamTechStackItem s @ [proposed s teamId dto],
              itemSeq := itemSeq s + 1\<rparr>)"
proof -
  let ?s1 = "s\<lparr>teamTechStackItem := teamTechStackItem s @ [proposed s teamId dto],
                itemSeq := itemSeq s + 1\<rparr>"
  have c: "teamTechStackItem_create s (techName dto) (techCategoryId dto) teamId
          = (Inr (proposed s teamId dto), ?s1)"
    using assms(3,4) by (simp add: teamTechStackItem_create_cases)
  have "voted ?s1 (itemSeq s) m" using assms(5) by (simp add: voted_def)
  then have v: "teamTechStackItemVote_create ?s1 now (itemSeq s) m = (Inl P2002, ?s1)"
    unfolding teamTechStackItemVote_create_def voted_def by (rule if_P)
  have i: "item_id (proposed s teamId dto) = itemSeq s" by (simp add: proposed_def)
  from assms(1,2) show ?thesis
    by (simp add: addNewTeamTech_def c v i nameTaken_Conflict)
qed

lemma addNewTeamTech_Inr:
  assumes "addNewTeamTech s now req teamId dto = (Inr r, s')"
  shows "\<exists>m. findVoyageMemberId s req teamId = Some m \<and> m \<noteq> 0 \<and> \<not> nameTaken s teamId dto
             \<and> refsExist s teamId dto \<and> \<not> voted s (itemSeq s) m
             \<and> teamTechId r = itemSeq s \<and> teamMemberId r = m
             \<and> r = \<lparr>teamTechStackItemVoteId = voteSeq s, teamTechId = itemSeq s, teamMemberId = m,
                    createdAt = now, updatedAt = now\<rparr>
             \<and> s' = s\<lparr>teamTechStackItem := teamTechStackItem s @ [proposed s teamId dto],
                       itemSeq := itemSeq s + 1,
                       teamTechStackItemVote := teamTechStackItemVote s @ [cast s now (itemSeq s) m],
                       voteSeq := voteSeq s + 1\<rparr>"
proof (cases "falsy_id (findVoyageMemberId s req teamId)")
  case True
  from addNewTeamTech_gate [OF True] assms show ?thesis by simp
next
  case False
  then obtain m where m: "findVoyageMemberId s req teamId = Some m" and m0: "m \<noteq> 0"
    by (cases "findVoyageMemberId s req teamId") auto
  show ?thesis
  proof (cases "nameTaken s teamId dto")
    case True
    from addNewTeamTech_taken [OF m m0 True] assms show ?thesis by simp
  next
    case n: False
    show ?thesis
    proof (cases "refsExist s teamId dto")
      case False
      from addNewTeamTech_unreferenced [OF m m0 n False] assms show ?thesis
        by (simp add: P2003_def)
    next
      case refs: True
      show ?thesis
      proof (cases "voted s (itemSeq s) m")
        case True
        from addNewTeamTech_collides [OF m m0 n refs True] assms show ?thesis by simp
      next
        case False
        from addNewTeamTech_fresh [OF m m0 n refs False] assms m m0 n refs False
        show ?thesis by auto
      qed
    qed
  qed
qed

text \<open>
  C2. In a store reached from an initial one by any requests, the caller resolves to
  member \<open>m\<close>, whose vote \<open>v\<close> for item \<open>tid\<close> is in the store. If the item has exactly
  one vote, \<open>removeVote\<close> returns "The vote and tech stack item were deleted" and leaves
  the store without \<open>v\<close> and without the item. If the item has two or more votes, it
  returns "This vote was deleted" and leaves the store without \<open>v\<close>; the items and every
  other vote are as before.
\<close>

theorem removeVote_cascade:
  assumes "initial s0" and "s = run s0 cs"
    and member: "findVoyageMemberId s req teamId = Some m"
    and vote: "v \<in> set (teamTechStackItemVote s)" "vote_teamTechId v = tid" "vote_teamMemberId v = m"
  shows "(length (votesOf s tid) = 1 \<longrightarrow>
            removeVote s req teamId tid
              = (Inr \<lparr>message = ''The vote and tech stack item were deleted'', statusCode = 200\<rparr>,
                 s\<lparr>teamTechStackItemVote := remove1 v (teamTechStackItemVote s),
                   teamTechStackItem := filter (\<lambda>i. item_id i \<noteq> tid) (teamTechStackItem s)\<rparr>))
         \<and> (2 \<le> length (votesOf s tid) \<longrightarrow>
            removeVote s req teamId tid
              = (Inr \<lparr>message = ''This vote was deleted'', statusCode = 200\<rparr>,
                 s\<lparr>teamTechStackItemVote := remove1 v (teamTechStackItemVote s)\<rparr>))"
proof -
  from assms(1,2) have "inv s" by (simp add: reachable_inv)
  then have c: "consistent s" by (simp add: inv_def)
  have voted: "voted s tid m" using vote by (auto simp: voted_def)
  from c voted have m0: "m \<noteq> 0" by (rule consistent_voted_member)
  from consistent_voted_item [OF c voted] obtain i where "teamTechStackItem_findUnique s tid = Some i"
    by blast
  then have item: "\<exists>i \<in> set (teamTechStackItem s). item_id i = tid"
    by (auto dest: findUnique_SomeD)
  from c have unique: "distinct (map votePair (teamTechStackItemVote s))"
    by (simp add: consistent_def)
  from member m0 vote item unique show ?thesis
    by (rule removeVote_cascade_store)
qed

theorem removeVote_cascade_witness:
  "initial store0
   \<and> store1 = run store0 [ProposeTech 100 ada 1 react]
   \<and> store2 = run store0 [ProposeTech 100 ada 1 react, AddVote 200 bob 1 1]
   \<and> findVoyageMemberId store1 ada 1 = Some 1 \<and> findVoyageMemberId store2 ada 1 = Some 1
   \<and> adas_vote \<in> set (teamTechStackItemVote store1)
   \<and> adas_vote \<in> set (teamTechStackItemVote store2)
   \<and> length (votesOf store1 1) = 1
   \<and> removeVote store1 ada 1 1
       = (Inr \<lparr>message = ''The vote and tech stack item were deleted'', statusCode = 200\<rparr>,
          store0\<lparr>itemSeq := 2, voteSeq := 2\<rparr>)
   \<and> 2 \<le> length (votesOf store2 1)
   \<and> removeVote store2 ada 1 1
       = (Inr \<lparr>message = ''This vote was deleted'', statusCode = 200\<rparr>,
          store2\<lparr>teamTechStackItemVote := [bobs_vote]\<rparr>)"
proof -
  have r1: "store1 = run store0 [ProposeTech 100 ada 1 react]" by (simp add: run_store1)
  have r2: "store2 = run store0 [ProposeTech 100 ada 1 react, AddVote 200 bob 1 1]"
    by (simp add: run_store2)
  have v1: "adas_vote \<in> set (teamTechStackItemVote store1)" "vote_teamTechId adas_vote = 1"
    "vote_teamMemberId adas_vote = 1"
    by (simp_all add: store1_def store0_def adas_vote_def)
  have l1: "length (votesOf store1 1) = 1"
    by (simp add: votesOf_def store1_def store0_def)
  have v2: "adas_vote \<in> set (teamTechStackItemVote store2)"
    by (simp add: store2_def store1_def store0_def adas_vote_def)
  have l2: "2 \<le> length (votesOf store2 1)"
    by (simp add: votesOf_def store2_def store1_def store0_def)
  from removeVote_cascade [OF initial_store0 r1 ada_member1 v1] l1
  have a: "removeVote store1 ada 1 1
       = (Inr \<lparr>message = ''The vote and tech stack item were deleted'', statusCode = 200\<rparr>,
          store0\<lparr>itemSeq := 2, voteSeq := 2\<rparr>)"
    by (simp add: store1_def store0_def adas_vote_def)
  from removeVote_cascade [OF initial_store0 r2 ada_member2 v2 v1(2,3)] l2
  have b: "removeVote store2 ada 1 1
       = (Inr \<lparr>message = ''This vote was deleted'', statusCode = 200\<rparr>,
          store2\<lparr>teamTechStackItemVote := [bobs_vote]\<rparr>)"
    by (simp add: store2_def store1_def store0_def adas_vote_def bobs_vote_def)
  from initial_store0 r1 r2 ada_member1 ada_member2 v1(1) v2 l1 a l2 b show ?thesis
    by (intro conjI)
qed




lemma store1_bob_vue:
  "addNewTeamTech store1 300 bob 1 vue
     = (Inr \<lparr>teamTechStackItemVoteId = 2, teamTechId = 2, teamMemberId = 2,
             createdAt = 300, updatedAt = 300\<rparr>, store3)"
proof -
  have two: "(2::int) \<noteq> 0" by simp
  have f: "\<not> nameTaken store1 1 vue"
    by (simp add: nameTaken_def store1_def store0_def vue_def)
  have refs: "refsExist store1 1 vue"
    by (simp add: refsExist_def store1_def store0_def vue_def)
  have nv: "\<not> voted store1 (itemSeq store1) 2"
    by (simp add: voted_def store1_def store0_def)
  from addNewTeamTech_fresh [OF bob_member1 two f refs nv, of 300] show ?thesis
    by (simp add: proposed_def cast_def store3_def store1_def store0_def vue_def adas_vote_def)
qed

lemma store1_ada_removes:
  "removeVote store1 ada 1 1
     = (Inr \<lparr>message = ''The vote and tech stack item were deleted'', statusCode = 200\<rparr>,
        store0\<lparr>itemSeq := 2, voteSeq := 2\<rparr>)"
proof -
  have one: "(1::int) \<noteq> 0" by simp
  have v: "voted store1 1 1" by (simp add: voted_def store1_def store0_def)
  have i: "\<exists>i \<in> set (teamTechStackItem store1). item_id i = 1"
    by (simp add: store1_def store0_def)
  have e: "votesOf (withoutVote store1 1 1) 1 = []"
    by (simp add: votesOf_def withoutVote_def store1_def store0_def)
  from removeVote_last [OF ada_member1 one v i e] show ?thesis
    by (simp add: withoutItem_def withoutVote_def store1_def store0_def)
qed

text \<open>
  C1. Every store reached from an initial one by any sequence of the four requests,
  returned or thrown, has no item without a vote. When \<open>addNewTeamTech\<close> returns in
  such a store, the store afterwards has the new item and a vote for it by the caller's
  membership. When \<open>removeVote\<close> returns, no item of the store afterwards is without
  a vote: if no vote for \<open>tid\<close> is left, no item \<open>tid\<close> is left. Each request runs
  from its first statement to its last before the next one starts.
\<close>

theorem no_item_without_vote:
  assumes "initial s0" and "s = run s0 cs"
  shows "zero_vote_free s
         \<and> (\<forall>r s'. addNewTeamTech s now req teamId dto = (Inr r, s') \<longrightarrow>
               (\<exists>i \<in> set (teamTechStackItem s'). item_id i = teamTechId r \<and> item_name i = techName dto)
               \<and> (\<exists>v \<in> set (teamTechStackItemVote s').
                     vote_teamTechId v = teamTechId r
                     \<and> findVoyageMemberId s req teamId = Some (vote_teamMemberId v))
               \<and> zero_vote_free s')
         \<and> (\<forall>out s'. removeVote s req teamId tid = (Inr out, s') \<longrightarrow>
               zero_vote_free s'
               \<and> (votesOf s' tid = [] \<longrightarrow> (\<forall>i \<in> set (teamTechStackItem s'). item_id i \<noteq> tid)))"
proof -
  from assms have i: "inv s" by (simp add: reachable_inv)
  then have c: "consistent s" and z: "zero_vote_free s" by (simp_all add: inv_def)
  have p: "(\<exists>i \<in> set (teamTechStackItem s'). item_id i = teamTechId r \<and> item_name i = techName dto)
           \<and> (\<exists>v \<in> set (teamTechStackItemVote s').
                 vote_teamTechId v = teamTechId r
                 \<and> findVoyageMemberId s req teamId = Some (vote_teamMemberId v))
           \<and> zero_vote_free s'"
    if a: "addNewTeamTech s now req teamId dto = (Inr r, s')" for r s'
  proof -
    from addNewTeamTech_Inr [OF a] obtain m where
      m: "findVoyageMemberId s req teamId = Some m" and r: "teamTechId r = itemSeq s"
      and s': "s' = s\<lparr>teamTechStackItem := teamTechStackItem s @ [proposed s teamId dto],
                       itemSeq := itemSeq s + 1,
                       teamTechStackItemVote := teamTechStackItemVote s @ [cast s now (itemSeq s) m],
                       voteSeq := voteSeq s + 1\<rparr>"
      by blast
    have "\<exists>i \<in> set (teamTechStackItem s'). item_id i = teamTechId r \<and> item_name i = techName dto"
      by (simp add: s' r proposed_def)
    moreover have "\<exists>v \<in> set (teamTechStackItemVote s').
            vote_teamTechId v = teamTechId r \<and> findVoyageMemberId s req teamId = Some (vote_teamMemberId v)"
      by (simp add: s' r m cast_def)
    moreover from addNewTeamTech_inv [OF i, of now req teamId dto] a have "zero_vote_free s'"
      by (simp add: inv_def)
    ultimately show ?thesis by (intro conjI)
  qed
  have q: "zero_vote_free s'
           \<and> (votesOf s' tid = [] \<longrightarrow> (\<forall>i \<in> set (teamTechStackItem s'). item_id i \<noteq> tid))"
    if a: "removeVote s req teamId tid = (Inr out, s')" for out s'
  proof -
    from removeVote_inv [OF i, of req teamId tid] a have "zero_vote_free s'"
      by (simp add: inv_def)
    then show ?thesis by (auto simp: zero_vote_free_def)
  qed
  from z p q show ?thesis by (intro conjI allI impI) blast+
qed

theorem no_item_without_vote_witness:
  "initial store0 \<and> store1 = run store0 [ProposeTech 100 ada 1 react]
   \<and> teamTechStackItem store1 \<noteq> [] \<and> zero_vote_free store1
   \<and> addNewTeamTech store1 300 bob 1 vue
        = (Inr \<lparr>teamTechStackItemVoteId = 2, teamTechId = 2, teamMemberId = 2,
                createdAt = 300, updatedAt = 300\<rparr>, store3)
   \<and> (\<exists>v \<in> set (teamTechStackItemVote store3).
         vote_teamTechId v = 2 \<and> findVoyageMemberId store1 bob 1 = Some (vote_teamMemberId v))
   \<and> removeVote store1 ada 1 1
       = (Inr \<lparr>message = ''The vote and tech stack item were deleted'', statusCode = 200\<rparr>,
          store0\<lparr>itemSeq := 2, voteSeq := 2\<rparr>)
   \<and> zero_vote_free (store0\<lparr>itemSeq := 2, voteSeq := 2\<rparr>)"
proof -
  have r: "store1 = run store0 [ProposeTech 100 ada 1 react]" by (simp add: run_store1)
  have n: "teamTechStackItem store1 \<noteq> []" by (simp add: store1_def)
  note p = store1_bob_vue
  note q = store1_ada_removes
  have z: "zero_vote_free store1"
    using no_item_without_vote [OF initial_store0 r] by blast
  have "\<exists>v \<in> set (teamTechStackItemVote store3).
         vote_teamTechId v = teamTechId \<lparr>teamTechStackItemVoteId = 2, teamTechId = 2, teamMemberId = 2,
                createdAt = 300, updatedAt = 300\<rparr>
         \<and> findVoyageMemberId store1 bob 1 = Some (vote_teamMemberId v)"
    using no_item_without_vote [OF initial_store0 r, where now = 300 and req = bob and teamId = 1 and dto = vue] p
    by blast
  then have v: "\<exists>v \<in> set (teamTechStackItemVote store3).
         vote_teamTechId v = 2 \<and> findVoyageMemberId store1 bob 1 = Some (vote_teamMemberId v)"
    by simp
  have w: "zero_vote_free (store0\<lparr>itemSeq := 2, voteSeq := 2\<rparr>)"
    using no_item_without_vote [OF initial_store0 r, where req = ada and teamId = 1 and tid = 1] q
    by blast
  from initial_store0 r n z p v q w show ?thesis by (intro conjI)
qed

lemma update_op_found:
  assumes "\<exists>i \<in> set (teamTechStackItem s). item_id i = iid"
  shows "\<exists>r. teamTechStackItem_update_op iid sel s
           = (Inr r, s\<lparr>teamTechStackItem :=
                         map (\<lambda>j. if item_id j = iid then j\<lparr>item_isSelected := sel\<rparr> else j)
                           (teamTechStackItem s)\<rparr>)"
proof -
  from assms obtain i where "teamTechStackItem_findUnique s iid = Some i"
    using findUnique_None_iff [of s iid] by (cases "teamTechStackItem_findUnique s iid") auto
  then show ?thesis by (simp add: teamTechStackItem_update_op_def)
qed

lemma update_op_missing:
  assumes "\<not> (\<exists>i \<in> set (teamTechStackItem s). item_id i = iid)"
  shows "teamTechStackItem_update_op iid sel s = (Inl (P2025 ''Record to update not found.''), s)"
proof -
  from assms have "teamTechStackItem_findUnique s iid = None"
    by (simp add: findUnique_None_iff)
  then show ?thesis by (simp add: teamTechStackItem_update_op_def)
qed

lemma found_after_write:
  "(\<exists>i \<in> set (map (\<lambda>j. if item_id j = x then j\<lparr>item_isSelected := b\<rparr> else j) xs). item_id i = y)
     = (\<exists>i \<in> set xs. item_id i = y)"
  by (induction xs) auto

lemma selected_as_step:
  "selected_as ts (if item_id j = techId t then j\<lparr>item_isSelected := isSelected t\<rparr> else j)
     = selected_as (t # ts) j"
  by (cases "requested ts (item_id j)") (auto simp: selected_as_def)

lemma run_batch_all_found:
  "\<forall>t \<in> set ts. \<exists>i \<in> set (teamTechStackItem s). item_id i = techId t \<Longrightarrow>
     \<exists>rs. run_batch (selection_writes ts) s
            = (Inr rs, s\<lparr>teamTechStackItem := map (selected_as ts) (teamTechStackItem s)\<rparr>)"
proof (induction ts arbitrary: s)
  case Nil
  have "map (selected_as []) (teamTechStackItem s) = teamTechStackItem s"
    by (simp add: selected_as_def map_idI)
  then show ?case by (simp add: selection_writes_def)
next
  case (Cons t ts)
  let ?s1 = "s\<lparr>teamTechStackItem :=
                  map (\<lambda>j. if item_id j = techId t then j\<lparr>item_isSelected := isSelected t\<rparr> else j)
                    (teamTechStackItem s)\<rparr>"
  from Cons.prems obtain r where w: "teamTechStackItem_update_op (techId t) (isSelected t) s = (Inr r, ?s1)"
    using update_op_found [of s "techId t" "isSelected t"] by auto
  have fw: "(\<exists>i \<in> set (teamTechStackItem ?s1). item_id i = y)
              = (\<exists>i \<in> set (teamTechStackItem s). item_id i = y)" for y
    using found_after_write [of "techId t" "isSelected t" "teamTechStackItem s" y] by simp
  from Cons.prems have "\<forall>u \<in> set ts. \<exists>i \<in> set (teamTechStackItem s). item_id i = techId u"
    by simp
  then have "\<forall>u \<in> set ts. \<exists>i \<in> set (teamTechStackItem ?s1). item_id i = techId u"
    by (simp only: fw)
  from Cons.IH [OF this] obtain rs where
    b: "run_batch (selection_writes ts) ?s1
          = (Inr rs, ?s1\<lparr>teamTechStackItem := map (selected_as ts) (teamTechStackItem ?s1)\<rparr>)"
    by blast
  have m: "map (selected_as ts) (teamTechStackItem ?s1) = map (selected_as (t # ts)) (teamTechStackItem s)"
    by (simp add: selected_as_step comp_def)
  have "run_batch (selection_writes (t # ts)) s
          = (Inr (r # rs), ?s1\<lparr>teamTechStackItem := map (selected_as ts) (teamTechStackItem ?s1)\<rparr>)"
    using w b by (simp add: selection_writes_def)
  also have "?s1\<lparr>teamTechStackItem := map (selected_as ts) (teamTechStackItem ?s1)\<rparr>
              = s\<lparr>teamTechStackItem := map (selected_as (t # ts)) (teamTechStackItem s)\<rparr>"
    unfolding m by simp
  finally show ?case by blast
qed

lemma run_batch_some_missing:
  "\<not> (\<forall>t \<in> set ts. \<exists>i \<in> set (teamTechStackItem s). item_id i = techId t) \<Longrightarrow>
     \<exists>s1. run_batch (selection_writes ts) s = (Inl (P2025 ''Record to update not found.''), s1)"
proof (induction ts arbitrary: s)
  case Nil
  then show ?case by simp
next
  case (Cons t ts)
  show ?case
  proof (cases "\<exists>i \<in> set (teamTechStackItem s). item_id i = techId t")
    case False
    from update_op_missing [OF False] show ?thesis by (simp add: selection_writes_def)
  next
    case True
    let ?s1 = "s\<lparr>teamTechStackItem :=
                  map (\<lambda>j. if item_id j = techId t then j\<lparr>item_isSelected := isSelected t\<rparr> else j)
                    (teamTechStackItem s)\<rparr>"
    from True obtain r where w: "teamTechStackItem_update_op (techId t) (isSelected t) s = (Inr r, ?s1)"
      using update_op_found [of s "techId t" "isSelected t"] by auto
    have fw: "(\<exists>i \<in> set (teamTechStackItem ?s1). item_id i = y)
                = (\<exists>i \<in> set (teamTechStackItem s). item_id i = y)" for y
      using found_after_write [of "techId t" "isSelected t" "teamTechStackItem s" y] by simp
    from Cons.prems True
    have "\<not> (\<forall>t \<in> set ts. \<exists>i \<in> set (teamTechStackItem s). item_id i = techId t)"
      by simp
    then have "\<not> (\<forall>t \<in> set ts. \<exists>i \<in> set (teamTechStackItem ?s1). item_id i = techId t)"
      unfolding fw .
    from Cons.IH [OF this] obtain s2 where
      "run_batch (selection_writes ts) ?s1 = (Inl (P2025 ''Record to update not found.''), s2)"
      by blast
    with w show ?thesis by (simp add: selection_writes_def)
  qed
qed

lemma transaction_selection:
  "transaction (selection_writes ts) s =
     (if \<forall>t \<in> set ts. \<exists>i \<in> set (teamTechStackItem s). item_id i = techId t
      then (fst (run_batch (selection_writes ts) s),
            s\<lparr>teamTechStackItem := map (selected_as ts) (teamTechStackItem s)\<rparr>)
      else (fst (run_batch (selection_writes ts) s), s))"
proof (cases "\<forall>t \<in> set ts. \<exists>i \<in> set (teamTechStackItem s). item_id i = techId t")
  case True
  from run_batch_all_found [OF True] True show ?thesis by (auto simp: transaction_def)
next
  case False
  from run_batch_some_missing [OF False] False show ?thesis by (auto simp: transaction_def)
qed

lemma find_snoc:
  "find P (xs @ [y]) = (case find P xs of Some x \<Rightarrow> Some x | None \<Rightarrow> if P y then Some y else None)"
  by (induction xs) simp_all

lemma requested_find:
  "requested ts x = map_option isSelected (find (\<lambda>t. techId t = x) (rev ts))"
  by (induction ts) (simp_all add: find_snoc split: option.splits)

lemma selected_as_find:
  "selected_as ts i =
     (case find (\<lambda>t. techId t = item_id i) (rev ts) of
        None \<Rightarrow> i
      | Some t \<Rightarrow> i\<lparr>item_isSelected := isSelected t\<rparr>)"
  by (simp add: selected_as_def requested_find split: option.splits)

lemma find_last_distinct:
  assumes "distinct (map techId ts)" and "t \<in> set ts"
  shows "find (\<lambda>u. techId u = techId t) (rev ts) = Some t"
proof -
  from assms have d: "distinct (map techId (rev ts))" and m: "t \<in> set (rev ts)"
    by (simp_all add: rev_map [symmetric])
  have "distinct (map techId xs) \<Longrightarrow> t \<in> set xs \<Longrightarrow> find (\<lambda>u. techId u = techId t) xs = Some t"
    for xs
    by (induction xs) (auto simp: image_iff)
  from this [OF d m] show ?thesis .
qed

lemma updateTechStackSelections_eq:
  "updateTechStackSelections s req teamId dto =
     (case checkSelectionCounts (categories dto) of
        Inl e \<Rightarrow> (Inl e, s)
      | Inr u \<Rightarrow>
          if falsy_id (findVoyageMemberId s req teamId)
          then (Inl (BadRequestException ''Invalid User or Team Id''), s)
          else transaction (selection_writes (techsArray (categories dto))) s)"
  unfolding updateTechStackSelections_def selection_writes_def ..

lemma updateTechStackSelections_passed:
  assumes "\<forall>c \<in> set (categories dto). length (filter isSelected (techs c)) \<le> 3"
    and "\<not> falsy_id (findVoyageMemberId s req teamId)"
  shows "updateTechStackSelections s req teamId dto
           = transaction (selection_writes (concat (map techs (categories dto)))) s"
proof -
  from assms(1) have "\<forall>c \<in> set (categories dto). selectCount c \<le> MAX_SELECTION_COUNT"
    by (simp add: selectCount_filter MAX_SELECTION_COUNT_def)
  then have "checkSelectionCounts (categories dto) = Inr ()"
    by (rule checkSelectionCounts_within)
  with assms(2) show ?thesis
    by (simp add: updateTechStackSelections_eq techsArray_def)
qed

text \<open>
  C4, amended. The batch is every entry of every category of the request, in the order of
  the request. When \<open>updateTechStackSelections\<close> throws, the store is the one it was
  given. When it returns, every item of the store has the flag of the last entry of the
  batch that lists it, and an item no entry lists is as before; nothing else of the
  store changes. It returns when no category has more than three selected entries, the
  caller is a member and every listed item is in the store; when these hold but for a
  listed item that is not in the store, it throws the storage error of the refused
  update and the store is the one it was given. When no item is listed twice, the last
  entry for an item is its only one.
\<close>

theorem updateTechStackSelections_atomic:
  "(\<forall>e s'. updateTechStackSelections s req teamId dto = (Inl e, s') \<longrightarrow> s' = s)
   \<and> (\<forall>rs s'. updateTechStackSelections s req teamId dto = (Inr rs, s') \<longrightarrow>
         s' = s\<lparr>teamTechStackItem :=
                  map (\<lambda>i. case find (\<lambda>t. techId t = item_id i)
                                   (rev (concat (map techs (categories dto)))) of
                              None \<Rightarrow> i
                            | Some t \<Rightarrow> i\<lparr>item_isSelected := isSelected t\<rparr>)
                    (teamTechStackItem s)\<rparr>)
   \<and> ((\<forall>c \<in> set (categories dto). length (filter isSelected (techs c)) \<le> 3)
        \<and> \<not> falsy_id (findVoyageMemberId s req teamId)
        \<and> (\<forall>t \<in> set (concat (map techs (categories dto))).
              \<exists>i \<in> set (teamTechStackItem s). item_id i = techId t)
       \<longrightarrow> (\<exists>rs. fst (updateTechStackSelections s req teamId dto) = Inr rs))
   \<and> ((\<forall>c \<in> set (categories dto). length (filter isSelected (techs c)) \<le> 3)
        \<and> \<not> falsy_id (findVoyageMemberId s req teamId)
        \<and> \<not> (\<forall>t \<in> set (concat (map techs (categories dto))).
              \<exists>i \<in> set (teamTechStackItem s). item_id i = techId t)
       \<longrightarrow> updateTechStackSelections s req teamId dto
             = (Inl (P2025 ''Record to update not found.''), s))
   \<and> (distinct (map techId (concat (map techs (categories dto)))) \<longrightarrow>
        (\<forall>t \<in> set (concat (map techs (categories dto))).
           find (\<lambda>u. techId u = techId t) (rev (concat (map techs (categories dto)))) = Some t))"
proof (intro conjI allI impI ballI)
  fix e s' assume "updateTechStackSelections s req teamId dto = (Inl e, s')"
  then show "s' = s"
    by (auto simp: updateTechStackSelections_eq transaction_def
        split: sum.splits if_splits prod.splits)
next
  fix rs s' assume a: "updateTechStackSelections s req teamId dto = (Inr rs, s')"
  then have t: "transaction (selection_writes (concat (map techs (categories dto)))) s = (Inr rs, s')"
    by (auto simp: updateTechStackSelections_eq techsArray_def split: sum.splits if_splits)
  have "s' = s\<lparr>teamTechStackItem :=
                  map (selected_as (concat (map techs (categories dto)))) (teamTechStackItem s)\<rparr>"
  proof (cases "\<forall>t \<in> set (concat (map techs (categories dto))).
                  \<exists>i \<in> set (teamTechStackItem s). item_id i = techId t")
    case True
    with t show ?thesis by (simp add: transaction_selection)
  next
    case False
    from run_batch_some_missing [OF False] t show ?thesis by (auto simp: transaction_def)
  qed
  then show "s' = s\<lparr>teamTechStackItem :=
                  map (\<lambda>i. case find (\<lambda>t. techId t = item_id i)
                                   (rev (concat (map techs (categories dto)))) of
                              None \<Rightarrow> i
                            | Some t \<Rightarrow> i\<lparr>item_isSelected := isSelected t\<rparr>)
                    (teamTechStackItem s)\<rparr>"
    by (simp only: selected_as_find [abs_def])
next
  assume a: "(\<forall>c \<in> set (categories dto). length (filter isSelected (techs c)) \<le> 3)
        \<and> \<not> falsy_id (findVoyageMemberId s req teamId)
        \<and> (\<forall>t \<in> set (concat (map techs (categories dto))).
              \<exists>i \<in> set (teamTechStackItem s). item_id i = techId t)"
  then have f: "\<forall>t \<in> set (concat (map techs (categories dto))).
              \<exists>i \<in> set (teamTechStackItem s). item_id i = techId t" by blast
  from a have "updateTechStackSelections s req teamId dto
           = transaction (selection_writes (concat (map techs (categories dto)))) s"
    by (intro updateTechStackSelections_passed) blast+
  with run_batch_all_found [OF f]
  show "\<exists>rs. fst (updateTechStackSelections s req teamId dto) = Inr rs"
    by (auto simp: transaction_def)
next
  assume a: "(\<forall>c \<in> set (categories dto). length (filter isSelected (techs c)) \<le> 3)
        \<and> \<not> falsy_id (findVoyageMemberId s req teamId)
        \<and> \<not> (\<forall>t \<in> set (concat (map techs (categories dto))).
              \<exists>i \<in> set (teamTechStackItem s). item_id i = techId t)"
  then have f: "\<not> (\<forall>t \<in> set (concat (map techs (categories dto))).
              \<exists>i \<in> set (teamTechStackItem s). item_id i = techId t)" by blast
  from a have "updateTechStackSelections s req teamId dto
           = transaction (selection_writes (concat (map techs (categories dto)))) s"
    by (intro updateTechStackSelections_passed) blast+
  with run_batch_some_missing [OF f]
  show "updateTechStackSelections s req teamId dto
             = (Inl (P2025 ''Record to update not found.''), s)"
    by (auto simp: transaction_def)
next
  fix t assume "distinct (map techId (concat (map techs (categories dto))))"
    and "t \<in> set (concat (map techs (categories dto)))"
  then show "find (\<lambda>u. techId u = techId t) (rev (concat (map techs (categories dto)))) = Some t"
    by (rule find_last_distinct)
qed

lemma off_then_on_result:
  "updateTechStackSelections store1 ada 1 off_then_on
     = (Inr [react_item False, react_item True], store1\<lparr>teamTechStackItem := [react_item True]\<rparr>)"
  by (simp add: updateTechStackSelections_def ada_member1 transaction_def techsArray_def
      off_then_on_def selectCount_def MAX_SELECTION_COUNT_def)
     (simp add: teamTechStackItem_update_op_def teamTechStackItem_findUnique_def
      store1_def store0_def react_item_def)

text \<open>
  C4 as stated asks that every listed entry's item has the entry's value afterwards. The
  batch \<open>off_then_on\<close> lists item 1 twice, first unselected and then selected. The call
  returns; the flag of item 1 goes from false to true, which is not the value of the first
  entry.
\<close>

theorem updateTechStackSelections_duplicate_counterexample:
  "fst (updateTechStackSelections store1 ada 1 off_then_on) = Inr [react_item False, react_item True]
   \<and> concat (map techs (categories off_then_on))
        = [\<lparr>techId = 1, isSelected = False\<rparr>, \<lparr>techId = 1, isSelected = True\<rparr>]
   \<and> teamTechStackItem store1 = [react_item False]
   \<and> teamTechStackItem (snd (updateTechStackSelections store1 ada 1 off_then_on)) = [react_item True]
   \<and> item_id (react_item True) = 1 \<and> item_isSelected (react_item True) \<noteq> False"
  by (simp add: off_then_on_result)
     (simp add: off_then_on_def store1_def store0_def react_item_def)

lemma ada_member4: "findVoyageMemberId store4 ada 1 = Some 1"
  by (simp add: findVoyageMemberId_def voyageTeamMember_findUnique_def store4_def store3_def
      store1_def store0_def ada_def)

lemma across_returns:
  "fst (updateTechStackSelections store4 ada 1 across)
     = Inr [tech_item 1 ''React'' True, tech_item 3 ''Svelte'' False, tech_item 3 ''Svelte'' True]"
  by (simp add: updateTechStackSelections_def ada_member4 transaction_def techsArray_def
      across_def selectCount_def MAX_SELECTION_COUNT_def)
     (simp add: teamTechStackItem_update_op_def teamTechStackItem_findUnique_def
      store4_def tech_item_def)

theorem updateTechStackSelections_atomic_witness:
  "map (\<lambda>c. length (filter isSelected (techs c))) (categories across) = [1, 1]
   \<and> map (\<lambda>c. length (filter isSelected (techs c))) (categories across_missing) = [1, 1]
   \<and> \<not> falsy_id (findVoyageMemberId store4 ada 1)
   \<and> map item_id (teamTechStackItem store4) = [1, 2, 3]
   \<and> teamTechStackItem store4
        = [tech_item 1 ''React'' False, tech_item 2 ''Vue'' True, tech_item 3 ''Svelte'' False]
   \<and> concat (map techs (categories across))
        = [\<lparr>techId = 1, isSelected = True\<rparr>, \<lparr>techId = 3, isSelected = False\<rparr>,
           \<lparr>techId = 3, isSelected = True\<rparr>]
   \<and> updateTechStackSelections store4 ada 1 across
        = (Inr [tech_item 1 ''React'' True, tech_item 3 ''Svelte'' False,
                tech_item 3 ''Svelte'' True],
           store4\<lparr>teamTechStackItem :=
                    [tech_item 1 ''React'' True, tech_item 2 ''Vue'' True,
                     tech_item 3 ''Svelte'' True]\<rparr>)
   \<and> concat (map techs (categories across_missing))
        = [\<lparr>techId = 1, isSelected = True\<rparr>, \<lparr>techId = 9, isSelected = True\<rparr>]
   \<and> updateTechStackSelections store4 ada 1 across_missing
        = (Inl (P2025 ''Record to update not found.''), store4)
   \<and> distinct (map techId (concat (map techs (categories across_missing))))
   \<and> find (\<lambda>u. techId u = 9) (rev (concat (map techs (categories across_missing))))
        = Some \<lparr>techId = 9, isSelected = True\<rparr>"
proof -
  note ta = updateTechStackSelections_atomic [of store4 ada 1 across]
  note tm = updateTechStackSelections_atomic [of store4 ada 1 across_missing]
  have c1: "map (\<lambda>c. length (filter isSelected (techs c))) (categories across) = [1, 1]"
    by (simp add: across_def)
  have c2: "map (\<lambda>c. length (filter isSelected (techs c))) (categories across_missing) = [1, 1]"
    by (simp add: across_missing_def)
  have cap: "\<forall>c \<in> set (categories across_missing). length (filter isSelected (techs c)) \<le> 3"
    by (simp add: across_missing_def)
  have m: "\<not> falsy_id (findVoyageMemberId store4 ada 1)"
    by (simp add: ada_member4)
  have ids: "map item_id (teamTechStackItem store4) = [1, 2, 3]"
    by (simp add: store4_def tech_item_def)
  have items: "teamTechStackItem store4
        = [tech_item 1 ''React'' False, tech_item 2 ''Vue'' True, tech_item 3 ''Svelte'' False]"
    by (simp add: store4_def)
  have ba: "concat (map techs (categories across))
        = [\<lparr>techId = 1, isSelected = True\<rparr>, \<lparr>techId = 3, isSelected = False\<rparr>,
           \<lparr>techId = 3, isSelected = True\<rparr>]"
    by (simp add: across_def)
  have bm: "concat (map techs (categories across_missing))
        = [\<lparr>techId = 1, isSelected = True\<rparr>, \<lparr>techId = 9, isSelected = True\<rparr>]"
    by (simp add: across_missing_def)
  have "updateTechStackSelections store4 ada 1 across
          = (Inr [tech_item 1 ''React'' True, tech_item 3 ''Svelte'' False,
                  tech_item 3 ''Svelte'' True],
             snd (updateTechStackSelections store4 ada 1 across))"
    using across_returns by (simp add: prod_eq_iff)
  moreover from this ta
  have "snd (updateTechStackSelections store4 ada 1 across)
          = store4\<lparr>teamTechStackItem :=
                  map (\<lambda>i. case find (\<lambda>t. techId t = item_id i)
                                   (rev (concat (map techs (categories across)))) of
                              None \<Rightarrow> i
                            | Some t \<Rightarrow> i\<lparr>item_isSelected := isSelected t\<rparr>)
                    (teamTechStackItem store4)\<rparr>"
    by blast
  moreover have "map (\<lambda>i. case find (\<lambda>t. techId t = item_id i)
                                   (rev (concat (map techs (categories across)))) of
                              None \<Rightarrow> i
                            | Some t \<Rightarrow> i\<lparr>item_isSelected := isSelected t\<rparr>)
                    (teamTechStackItem store4)
                   = [tech_item 1 ''React'' True, tech_item 2 ''Vue'' True,
                      tech_item 3 ''Svelte'' True]"
    by (simp add: ba items tech_item_def)
  ultimately have a: "updateTechStackSelections store4 ada 1 across
        = (Inr [tech_item 1 ''React'' True, tech_item 3 ''Svelte'' False,
                tech_item 3 ''Svelte'' True],
           store4\<lparr>teamTechStackItem :=
                    [tech_item 1 ''React'' True, tech_item 2 ''Vue'' True,
                     tech_item 3 ''Svelte'' True]\<rparr>)"
    by simp
  have nf: "\<not> (\<forall>t \<in> set (concat (map techs (categories across_missing))).
              \<exists>i \<in> set (teamTechStackItem store4). item_id i = techId t)"
    by (simp add: bm items tech_item_def)
  from tm cap m nf have b: "updateTechStackSelections store4 ada 1 across_missing
        = (Inl (P2025 ''Record to update not found.''), store4)"
    by blast
  have d: "distinct (map techId (concat (map techs (categories across_missing))))"
    by (simp add: bm)
  have "\<lparr>techId = 9, isSelected = True\<rparr> \<in> set (concat (map techs (categories across_missing)))"
    by (simp add: bm)
  with tm d have "find (\<lambda>u. techId u = techId \<lparr>techId = 9, isSelected = True\<rparr>)
                    (rev (concat (map techs (categories across_missing))))
                  = Some \<lparr>techId = 9, isSelected = True\<rparr>"
    by blast
  then have e: "find (\<lambda>u. techId u = 9) (rev (concat (map techs (categories across_missing))))
        = Some \<lparr>techId = 9, isSelected = True\<rparr>"
    by simp
  from c1 c2 m ids items ba a bm b d e show ?thesis by (intro conjI)
qed

subsection \<open>A vote cast during the cascade\<close>

lemma removeVote_between_nothing:
  "removeVote_between (\<lambda>s. s) s req teamId tid = removeVote s req teamId tid"
  by (simp add: removeVote_between_def removeVote_deleteVote_def removeVote_finish_def
      removeVote_def split: option.splits sum.splits prod.splits)

lemma store1_ada_deletes_vote:
  "removeVote_deleteVote store1 ada 1 1 = (Inr (), store1\<lparr>teamTechStackItemVote := []\<rparr>)"
proof -
  have "teamTechStackItemVote_delete store1 1 1 = (Inr (), store1\<lparr>teamTechStackItemVote := []\<rparr>)"
    by (simp add: teamTechStackItemVote_delete_def store1_def store0_def)
  then show ?thesis by (simp add: removeVote_deleteVote_def ada_member1)
qed

lemma bob_votes_meanwhile:
  "addExistingTechVote (store1\<lparr>teamTechStackItemVote := []\<rparr>) 200 bob 1 1
     = (Inr \<lparr>teamTechStackItemVoteId = 2, teamTechId = 1, teamMemberId = 2,
             createdAt = 200, updatedAt = 200\<rparr>,
        store1\<lparr>teamTechStackItemVote := [bobs_vote], voteSeq := 3\<rparr>)"
proof -
  let ?s = "store1\<lparr>teamTechStackItemVote := []\<rparr>"
  have two: "(2::int) \<noteq> 0" by simp
  have f: "teamTechStackItem_findUnique ?s 1
             = Some \<lparr>item_id = 1, item_name = ''React'', item_categoryId = 1,
                     item_voyageTeamId = 1, item_isSelected = False\<rparr>"
    by (simp add: teamTechStackItem_findUnique_def store1_def store0_def)
  have m: "findVoyageMemberId ?s bob 1 = Some 2"
    by (simp add: findVoyageMemberId_def voyageTeamMember_findUnique_def store1_def store0_def
        bob_def)
  have nv: "\<not> voted ?s 1 2" by (simp add: voted_def)
  from addExistingTechVote_new [OF f m two nv, of 200] show ?thesis
    by (simp add: cast_def bobs_vote_def store1_def store0_def)
qed

text \<open>
  C9. The claim is that the re-read and the item delete of \<open>removeVote\<close> are one step, so
  that no vote cast meanwhile is lost and no vote is left for a deleted item. In
  \<open>store1\<close> React has Ada's vote only. Ada removes her vote; after her re-read, which
  finds no vote, and before her item delete, Bob's vote for React is served whole. Both
  requests return: Bob gets his vote, Ada gets "The vote and tech stack item were
  deleted". The store they leave has no item, and it has Bob's vote for item 1.
\<close>

theorem removeVote_addVote_race:
  "removeVote_deleteVote store1 ada 1 1 = (Inr (), store1\<lparr>teamTechStackItemVote := []\<rparr>)
   \<and> teamTechStackItem_findUnique_votes (store1\<lparr>teamTechStackItemVote := []\<rparr>) 1 = Some []
   \<and> addExistingTechVote (store1\<lparr>teamTechStackItemVote := []\<rparr>) 200 bob 1 1
        = (Inr \<lparr>teamTechStackItemVoteId = 2, teamTechId = 1, teamMemberId = 2,
                createdAt = 200, updatedAt = 200\<rparr>,
           store1\<lparr>teamTechStackItemVote := [bobs_vote], voteSeq := 3\<rparr>)
   \<and> removeVote_between (\<lambda>s. snd (addExistingTechVote s 200 bob 1 1)) store1 ada 1 1
        = (Inr \<lparr>message = ''The vote and tech stack item were deleted'', statusCode = 200\<rparr>,
           store1\<lparr>teamTechStackItem := [], teamTechStackItemVote := [bobs_vote], voteSeq := 3\<rparr>)
   \<and> vote_teamTechId bobs_vote = 1 \<and> vote_teamMemberId bobs_vote = 2"
proof -
  let ?s1 = "store1\<lparr>teamTechStackItemVote := []\<rparr>"
  let ?s2 = "store1\<lparr>teamTechStackItemVote := [bobs_vote], voteSeq := 3\<rparr>"
  have r: "teamTechStackItem_findUnique_votes ?s1 1 = Some []"
    by (simp add: teamTechStackItem_findUnique_votes_def teamTechStackItem_findUnique_def
        votesOf_def store1_def store0_def)
  have d: "teamTechStackItem_delete ?s2 1
             = (Inr (), store1\<lparr>teamTechStackItem := [], teamTechStackItemVote := [bobs_vote],
                              voteSeq := 3\<rparr>)"
    by (simp add: teamTechStackItem_delete_def store1_def store0_def)
  have "removeVote_finish ?s2 1 (Some [])
          = (Inr \<lparr>message = ''The vote and tech stack item were deleted'', statusCode = 200\<rparr>,
             store1\<lparr>teamTechStackItem := [], teamTechStackItemVote := [bobs_vote], voteSeq := 3\<rparr>)"
    by (simp add: removeVote_finish_def d)
  then have b: "removeVote_between (\<lambda>s. snd (addExistingTechVote s 200 bob 1 1)) store1 ada 1 1
        = (Inr \<lparr>message = ''The vote and tech stack item were deleted'', statusCode = 200\<rparr>,
           store1\<lparr>teamTechStackItem := [], teamTechStackItemVote := [bobs_vote], voteSeq := 3\<rparr>)"
    by (simp add: removeVote_between_def store1_ada_deletes_vote r bob_votes_meanwhile)
  have v: "vote_teamTechId bobs_vote = 1" "vote_teamMemberId bobs_vote = 2"
    by (simp_all add: bobs_vote_def)
  from store1_ada_deletes_vote r bob_votes_meanwhile b v show ?thesis by (intro conjI)
qed

lemma race_leaves_vote_without_item:
  "\<not> consistent (store1\<lparr>teamTechStackItem := [], teamTechStackItemVote := [bobs_vote],
                          voteSeq := 3\<rparr>)"
  by (simp add: consistent_def)

end
